theory Spec2Isabelle
  imports Main
begin

section \<open>Go types and values, as reflection sees them\<close>

datatype intkind = KInt | KInt8 | KInt16 | KInt32 | KInt64

datatype uintkind = KUint | KUint8 | KUint16 | KUint32 | KUint64

text \<open>
  A struct field as \<open>reflect.StructField\<close> gives it: its name, the value of its \<open>conf\<close>
  tag (empty when there is none), whether it is exported (then, and only then, a field
  reached through a struct pointer can be set), whether it is embedded, and its type.
\<close>

datatype 'ty sfield =
  SField (fname: string) (ftag: string) (fexported: bool) (fanon: bool) (ftype: 'ty)

text \<open>
  \<open>TNamed pkg name t\<close> is a defined type with underlying type \<open>t\<close>
  (\<open>time.Duration\<close> is \<open>TNamed ''time'' ''Duration'' (TInt KInt64)\<close>); \<open>TFloat\<close> carries
  the width; \<open>TOther\<close> stands for every kind the package has no case for (array, chan,
  func, interface, complex, uintptr, unsafe pointer), with the printed type.
\<close>

datatype gtype =
    TBool
  | TString
  | TInt intkind
  | TUint uintkind
  | TFloat nat
  | TPtr gtype
  | TSlice gtype
  | TMap gtype gtype
  | TStruct "gtype sfield list"
  | TNamed string string gtype
  | TOther string

text \<open>
  Values. A pointer owns its pointee (\<open>None\<close> is nil), so two pointers of a
  destination never alias; a slice or a map is nil (\<open>None\<close>) or holds its elements, a map
  as an association list in insertion order; a float is its IEEE-754 binary64 bit
  pattern; a value of a \<open>TOther\<close> type is a number, 0 for the zero value.
\<close>

datatype gval =
    VBool bool
  | VString string
  | VInt int
  | VUint nat
  | VFloat nat
  | VPtr "gval option"
  | VSlice "gval list option"
  | VMap "(gval \<times> gval) list option"
  | VStruct "gval list"
  | VOther nat

lemma size_ftype [termination_simp]:
  "x \<in> set fs \<Longrightarrow> size (ftype x) < Suc (size_list (size_sfield size) fs)"
proof (induction fs)
  case Nil
  then show ?case by simp
next
  case (Cons f fs)
  then show ?case by (cases x) auto
qed

fun underlying :: "gtype \<Rightarrow> gtype" where
  "underlying (TNamed pkg name t) = underlying t"
| "underlying t = t"

definition isPtrKind :: "gtype \<Rightarrow> bool" where
  "isPtrKind t = (case underlying t of TPtr e \<Rightarrow> True | _ \<Rightarrow> False)"

definition isStructKind :: "gtype \<Rightarrow> bool" where
  "isStructKind t = (case underlying t of TStruct fs \<Rightarrow> True | _ \<Rightarrow> False)"

text \<open>The fields of a type of kind struct, and the field values of a struct value.\<close>

definition fieldsOf :: "gtype \<Rightarrow> gtype sfield list option" where
  "fieldsOf t = (case underlying t of TStruct fs \<Rightarrow> Some fs | _ \<Rightarrow> None)"

definition valuesOf :: "gval \<Rightarrow> gval list option" where
  "valuesOf v = (case v of VStruct vs \<Rightarrow> Some vs | _ \<Rightarrow> None)"

text \<open>\<open>Type.Elem()\<close> of a pointer type.\<close>

definition ptrElem :: "gtype \<Rightarrow> gtype" where
  "ptrElem t = (case underlying t of TPtr e \<Rightarrow> e | _ \<Rightarrow> t)"

text \<open>What a pointer points to; \<open>None\<close> for nil.\<close>

definition pointee :: "gval \<Rightarrow> gval option" where
  "pointee f = (case f of VPtr p \<Rightarrow> p | _ \<Rightarrow> None)"

text \<open>\<open>reflect.Zero\<close>: the zero value of a type.\<close>

fun zero :: "gtype \<Rightarrow> gval" where
  "zero TBool = VBool False"
| "zero TString = VString []"
| "zero (TInt k) = VInt 0"
| "zero (TUint k) = VUint 0"
| "zero (TFloat w) = VFloat 0"
| "zero (TPtr t) = VPtr None"
| "zero (TSlice t) = VSlice None"
| "zero (TMap k v) = VMap None"
| "zero (TStruct fs) = VStruct (map (\<lambda>f. zero (ftype f)) fs)"
| "zero (TNamed pkg name t) = zero t"
| "zero (TOther s) = VOther 0"


lemma size_underlying: "size (underlying t) \<le> size t"
  by (induction t rule: underlying.induct) auto

lemma size_ptrElem: "size (ptrElem t) \<le> size t"
proof (cases "underlying t")
  case (TPtr e)
  have "size (underlying t) \<le> size t" by (rule size_underlying)
  with TPtr show ?thesis by (simp add: ptrElem_def)
qed (simp_all add: ptrElem_def)

lemma size_field_of_struct:
  assumes "fieldsOf t = Some fs" "sf \<in> set fs"
  shows "size (ftype sf) < size t"
proof -
  from assms(1) have u: "underlying t = TStruct fs"
    by (auto simp: fieldsOf_def split: gtype.splits)
  have "size (underlying t) \<le> size t" by (rule size_underlying)
  moreover from assms(2) have "size (ftype sf) < Suc (size_list (size_sfield size) fs)"
    by (rule size_ftype)
  ultimately show ?thesis using u by simp
qed

text \<open>
  \<open>reflect.Value.IsZero\<close>, as of Go 1.22: a float is zero when it equals 0 (so both
  \<open>+0\<close> and \<open>-0\<close> are), and a struct is zero when every field that is not the blank
  field \<open>_\<close> is. The type is needed for the names of the fields only.
\<close>

function IsZero :: "gtype \<Rightarrow> gval \<Rightarrow> bool" where
  "IsZero t v =
     (case v of
        VBool b \<Rightarrow> \<not> b
      | VString s \<Rightarrow> s = []
      | VInt i \<Rightarrow> i = 0
      | VUint n \<Rightarrow> n = 0
      | VFloat bits \<Rightarrow> bits = 0 \<or> bits = 2 ^ 63
      | VPtr p \<Rightarrow> p = None
      | VSlice s \<Rightarrow> s = None
      | VMap m \<Rightarrow> m = None
      | VStruct vs \<Rightarrow>
          (case fieldsOf t of
             Some fs \<Rightarrow>
               list_all (\<lambda>(sf, x). fname sf = ''_'' \<or> IsZero (ftype sf) x) (zip fs vs)
           | None \<Rightarrow> vs = [])
      | VOther n \<Rightarrow> n = 0)"
  by pat_completeness auto
termination
proof (relation "measure (\<lambda>(t, v). size t)", goal_cases)
  case 1
  show ?case by simp
next
  case (2 t v vs fs p sf x)
  then have "sf \<in> set fs" by (auto dest: set_zip_leftD)
  with 2 show ?case by (simp add: size_field_of_struct)
qed

declare IsZero.simps [simp del]

text \<open>
  Go's \<open>==\<close> on map keys. Two non-nil pointers made by separate allocations differ; a
  float is compared as IEEE-754 does (a NaN equals nothing, the two zeros are equal);
  structs field by field. Slices and maps are never keys.
\<close>

definition isNaN :: "nat \<Rightarrow> bool" where
  "isNaN bits = ((bits div 2 ^ 52) mod 2 ^ 11 = 2047 \<and> bits mod 2 ^ 52 \<noteq> 0)"

definition floatEq :: "nat \<Rightarrow> nat \<Rightarrow> bool" where
  "floatEq a b = (\<not> isNaN a \<and> \<not> isNaN b \<and> (a = b \<or> (a mod 2 ^ 63 = 0 \<and> b mod 2 ^ 63 = 0)))"

fun goEq :: "gval \<Rightarrow> gval \<Rightarrow> bool" where
  "goEq (VFloat a) (VFloat b) = floatEq a b"
| "goEq (VPtr p) (VPtr q) = (p = None \<and> q = None)"
| "goEq (VSlice a) (VSlice b) = False"
| "goEq (VMap a) (VMap b) = False"
| "goEq (VStruct xs) (VStruct ys) = list_all2 goEq xs ys"
| "goEq a b = (a = b)"

text \<open>
  \<open>reflect.Value.SetMapIndex\<close>: an entry with an equal key is overwritten in its place, key
  and value (the key matters for floats, where \<open>+0\<close> and \<open>-0\<close> are equal).
\<close>

fun SetMapIndex :: "(gval \<times> gval) list \<Rightarrow> gval \<Rightarrow> gval \<Rightarrow> (gval \<times> gval) list" where
  "SetMapIndex [] k v = [(k, v)]"
| "SetMapIndex ((k', v') # m) k v =
     (if goEq k' k then (k, v) # m else (k', v') # SetMapIndex m k v)"



section \<open>Errors\<close>

text \<open>
  An error made by \<open>errors.New\<close> or \<open>fmt.Errorf\<close> from strings alone is its message;
  \<open>Wrapf\<close> is \<open>fmt.Errorf\<close> with a final \<open>%w\<close>: the text before the wrapped error, and
  that error. \<open>TagMissingValue p\<close> is \<open>fmt.Errorf("tag %q missing value", p)\<close>,
  \<open>InvalidMapItem p\<close> is \<open>fmt.Errorf("invalid map item: %q", p)\<close> and
  \<open>UnsupportedType t\<close> is \<open>fmt.Errorf("unsupported type: %q", t)\<close>. \<open>FieldError\<close> is the
  struct of that name, the type standing for its printed name. \<open>LibError\<close> is an error
  returned by code outside the package (\<open>strconv\<close>, \<open>time\<close>, a type's own \<open>Set\<close> or
  \<open>Unmarshal\<close> method).
\<close>

datatype error =
    ErrInvalidStruct
  | Errorf string
  | Wrapf string error
  | TagMissingValue string
  | InvalidMapItem string
  | UnsupportedType gtype
  | FieldError string gtype string error
  | LibError string

section \<open>What the package calls outside itself\<close>

text \<open>
  The number parsers of \<open>strconv\<close> and \<open>time\<close> and the methods a destination type
  brings along are not code of the package: they are parameters of the model. A hook is
  a \<open>Set\<close>, \<open>UnmarshalText\<close> or \<open>UnmarshalBinary\<close> method: from the raw string and the
  receiver's value it gives the error it returns and the receiver's value afterwards.
  \<open>SetterOf t\<close> is the method found by \<open>setterFrom\<close> on an addressable value of type
  \<open>t\<close> (in the method set of \<open>t\<close> or of \<open>*t\<close>), likewise the other two.
  \<open>ParseInt s bits\<close> is \<open>strconv.ParseInt(s, 0, bits)\<close>, \<open>ParseUint s bits\<close> is
  \<open>strconv.ParseUint(s, 0, bits)\<close>, \<open>ParseFloat\<close> gives the bit pattern of its result.

  The tables of package \<open>unicode\<close> are parameters as well, outside ASCII, where the
  model writes them out. A code point is given by its UTF-8 encoding: \<open>UniLower r\<close>,
  \<open>UniUpper r\<close>, \<open>UniDigit r\<close> and \<open>UniSpace r\<close> are \<open>unicode.IsLower\<close>,
  \<open>unicode.IsUpper\<close>, \<open>unicode.IsDigit\<close> and \<open>unicode.IsSpace\<close> on the code point
  encoded by \<open>r\<close>, and \<open>UniToUpper r\<close> is the encoding of its \<open>unicode.ToUpper\<close>.
\<close>

type_synonym hook = "string \<Rightarrow> gval \<Rightarrow> error option \<times> gval"

record golib =
  IntSize :: nat
  ParseInt :: "string \<Rightarrow> nat \<Rightarrow> error + int"
  ParseUint :: "string \<Rightarrow> nat \<Rightarrow> error + nat"
  ParseBool :: "string \<Rightarrow> error + bool"
  ParseFloat :: "string \<Rightarrow> nat \<Rightarrow> error + nat"
  ParseDuration :: "string \<Rightarrow> error + int"
  SetterOf :: "gtype \<Rightarrow> hook option"
  TextUnmarshalerOf :: "gtype \<Rightarrow> hook option"
  BinaryUnmarshalerOf :: "gtype \<Rightarrow> hook option"
  UniLower :: "string \<Rightarrow> bool"
  UniUpper :: "string \<Rightarrow> bool"
  UniDigit :: "string \<Rightarrow> bool"
  UniSpace :: "string \<Rightarrow> bool"
  UniToUpper :: "string \<Rightarrow> string"

text \<open>\<open>Type.Bits()\<close>.\<close>

fun intBits :: "golib \<Rightarrow> intkind \<Rightarrow> nat" where
  "intBits lib KInt = IntSize lib"
| "intBits lib KInt8 = 8"
| "intBits lib KInt16 = 16"
| "intBits lib KInt32 = 32"
| "intBits lib KInt64 = 64"

fun uintBits :: "golib \<Rightarrow> uintkind \<Rightarrow> nat" where
  "uintBits lib KUint = IntSize lib"
| "uintBits lib KUint8 = 8"
| "uintBits lib KUint16 = 16"
| "uintBits lib KUint32 = 32"
| "uintBits lib KUint64 = 64"

text \<open>\<open>SetInt\<close> and \<open>SetUint\<close> store the value converted to the field's width.\<close>

definition wrapInt :: "nat \<Rightarrow> int \<Rightarrow> int" where
  "wrapInt bits x = (x + 2 ^ (bits - 1)) mod 2 ^ bits - 2 ^ (bits - 1)"

definition wrapUint :: "nat \<Rightarrow> nat \<Rightarrow> nat" where
  "wrapUint bits x = x mod 2 ^ bits"

definition isDuration :: "gtype \<Rightarrow> bool" where
  "isDuration t = (case t of TNamed pkg name u \<Rightarrow> pkg = ''time'' \<and> name = ''Duration'' \<and> underlying u = TInt KInt64
                   | _ \<Rightarrow> False)"


section \<open>Go strings, as far as the package uses them\<close>

text \<open>
  A string is its bytes (\<open>char list\<close>). Where Go reads a string as text
  (\<open>[]rune(s)\<close>, \<open>range\<close>, \<open>strings.ToUpper\<close>, \<open>strings.TrimSpace\<close>) it decodes UTF-8:
  \<open>runeLen s\<close> is the number of bytes of the encoding at the head of \<open>s\<close> as
  \<open>utf8.DecodeRuneInString\<close> accepts it (no overlong form, no surrogate, nothing above
  U+10FFFF), and 0 when there is none; a byte that starts no encoding is read as the code
  point U+FFFD, one byte wide. \<open>utf8Chunks\<close> cuts a string into the pieces so read; a
  code point is written as its UTF-8 encoding, so \<open>toRunes s\<close> is \<open>[]rune(s)\<close> and the
  conversion back, \<open>string(runes)\<close>, is \<open>concat\<close>. All separators the package splits on
  are single ASCII bytes.
\<close>

definition isASCII :: "char \<Rightarrow> bool" where
  "isASCII c = (of_char c < (128::nat))"

definition between :: "nat \<Rightarrow> char \<Rightarrow> nat \<Rightarrow> bool" where
  "between lo c hi = (lo \<le> of_char c \<and> of_char c \<le> hi)"

fun runeLen :: "string \<Rightarrow> nat" where
  "runeLen [] = 0"
| "runeLen (c0 # s) =
     (if isASCII c0 then 1
      else if between 0xC2 c0 0xDF then
        (case s of c1 # r \<Rightarrow> if between 0x80 c1 0xBF then 2 else 0 | _ \<Rightarrow> 0)
      else if between 0xE0 c0 0xEF then
        (case s of
           c1 # c2 # r \<Rightarrow>
             if between (if c0 = CHR 0xE0 then 0xA0 else 0x80) c1
                        (if c0 = CHR 0xED then 0x9F else 0xBF) \<and>
                between 0x80 c2 0xBF
             then 3 else 0
         | _ \<Rightarrow> 0)
      else if between 0xF0 c0 0xF4 then
        (case s of
           c1 # c2 # c3 # r \<Rightarrow>
             if between (if c0 = CHR 0xF0 then 0x90 else 0x80) c1
                        (if c0 = CHR 0xF4 then 0x8F else 0xBF) \<and>
                between 0x80 c2 0xBF \<and> between 0x80 c3 0xBF
             then 4 else 0
         | _ \<Rightarrow> 0)
      else 0)"

declare runeLen.simps(2) [simp del]

function utf8Chunks :: "string \<Rightarrow> string list" where
  "utf8Chunks [] = []"
| "utf8Chunks (c # s) =
     (let w = runeLen (c # s) - 1 in (c # take w s) # utf8Chunks (drop w s))"
  by pat_completeness auto
termination
  by (relation "measure length") simp_all

definition RuneError :: string where
  "RuneError = [CHR 0xEF, CHR 0xBF, CHR 0xBD]"

definition runeOf :: "string \<Rightarrow> string" where
  "runeOf chunk = (if runeLen chunk = 0 then RuneError else chunk)"

definition toRunes :: "string \<Rightarrow> string list" where
  "toRunes s = map runeOf (utf8Chunks s)"

definition lowers :: string where
  "lowers = ''abcdefghijklmnopqrstuvwxyz''"

definition uppers :: string where
  "uppers = ''ABCDEFGHIJKLMNOPQRSTUVWXYZ''"

definition digits :: string where
  "digits = ''0123456789''"

text \<open>
  \<open>unicode.IsLower\<close>, \<open>IsUpper\<close>, \<open>IsDigit\<close>, \<open>IsSpace\<close> and \<open>ToUpper\<close> on a code
  point: written out on ASCII (the code points of one byte), the library's tables
  elsewhere.
\<close>

definition IsLower :: "golib \<Rightarrow> string \<Rightarrow> bool" where
  "IsLower lib r = (case r of [c] \<Rightarrow> c \<in> set lowers | _ \<Rightarrow> UniLower lib r)"

definition IsUpper :: "golib \<Rightarrow> string \<Rightarrow> bool" where
  "IsUpper lib r = (case r of [c] \<Rightarrow> c \<in> set uppers | _ \<Rightarrow> UniUpper lib r)"

definition IsDigit :: "golib \<Rightarrow> string \<Rightarrow> bool" where
  "IsDigit lib r = (case r of [c] \<Rightarrow> c \<in> set digits | _ \<Rightarrow> UniDigit lib r)"

definition IsSpace :: "golib \<Rightarrow> string \<Rightarrow> bool" where
  "IsSpace lib r =
     (case r of
        [c] \<Rightarrow> c \<in> set [CHR '' '', CHR 0x09, CHR 0x0A, CHR 0x0B, CHR 0x0C, CHR 0x0D]
      | _ \<Rightarrow> UniSpace lib r)"

definition toUpperChar :: "char \<Rightarrow> char" where
  "toUpperChar c = (case map_of (zip lowers uppers) c of Some u \<Rightarrow> u | None \<Rightarrow> c)"

definition toUpperRune :: "golib \<Rightarrow> string \<Rightarrow> string" where
  "toUpperRune lib r = (case r of [c] \<Rightarrow> [toUpperChar c] | _ \<Rightarrow> UniToUpper lib r)"

text \<open>\<open>strings.ToUpper\<close>: every code point replaced by its upper case.\<close>

definition ToUpper :: "golib \<Rightarrow> string \<Rightarrow> string" where
  "ToUpper lib s = concat (map (toUpperRune lib) (toRunes s))"

text \<open>
  \<open>strings.TrimSpace\<close>: the string without the white space code points at its two ends;
  the bytes in between are kept as they are.
\<close>

definition TrimSpace :: "golib \<Rightarrow> string \<Rightarrow> string" where
  "TrimSpace lib s =
     concat (rev (dropWhile (\<lambda>ch. IsSpace lib (runeOf ch))
                    (rev (dropWhile (\<lambda>ch. IsSpace lib (runeOf ch)) (utf8Chunks s)))))"

text \<open>\<open>strings.Split(s, sep)\<close> for a one-byte separator: never empty, \<open>[s]\<close> when the
  separator does not occur.\<close>

fun Split :: "string \<Rightarrow> char \<Rightarrow> string list" where
  "Split [] sep = [[]]"
| "Split (c # cs) sep =
     (if c = sep then [] # Split cs sep
      else (case Split cs sep of
              [] \<Rightarrow> [[c]]
            | w # ws \<Rightarrow> (c # w) # ws))"

text \<open>\<open>strings.SplitN(s, sep, 2)\<close>: cut at the first separator only.\<close>

definition SplitN2 :: "string \<Rightarrow> char \<Rightarrow> string list" where
  "SplitN2 s sep =
     (if sep \<in> set s
      then [takeWhile (\<lambda>c. c \<noteq> sep) s, tl (dropWhile (\<lambda>c. c \<noteq> sep) s)]
      else [s])"

fun Join :: "string list \<Rightarrow> string \<Rightarrow> string" where
  "Join [] sep = []"
| "Join [x] sep = x"
| "Join (x # y # ys) sep = x @ sep @ Join (y # ys) sep"

definition HasPrefix :: "string \<Rightarrow> string \<Rightarrow> bool" where
  "HasPrefix s p = (take (length p) s = p)"

definition TrimPrefix :: "string \<Rightarrow> string \<Rightarrow> string" where
  "TrimPrefix s p = (if HasPrefix s p then drop (length p) s else s)"

text \<open>\<open>strings.Index(s, "=")\<close> on a string that holds the byte: the length of the part
  before its first occurrence.\<close>

definition IndexByte :: "string \<Rightarrow> char \<Rightarrow> nat" where
  "IndexByte s c = length (takeWhile (\<lambda>x. x \<noteq> c) s)"

text \<open>\<open>strings.Contains\<close>.\<close>

fun Contains :: "string \<Rightarrow> string \<Rightarrow> bool" where
  "Contains [] sub = (sub = [])"
| "Contains (c # cs) sub = (HasPrefix (c # cs) sub \<or> Contains cs sub)"

section \<open>camelSplit (field.go)\<close>

datatype charclass = classLower | classUpper | classNumber | classOther

definition charClass :: "golib \<Rightarrow> string \<Rightarrow> charclass" where
  "charClass lib r =
     (if IsLower lib r then classLower
      else if IsUpper lib r then classUpper
      else if IsDigit lib r then classNumber
      else classOther)"

text \<open>\<open>runes[a:b]\<close>.\<close>

definition slice :: "'a list \<Rightarrow> nat \<Rightarrow> nat \<Rightarrow> 'a list" where
  "slice xs a b = take (b - a) (drop a xs)"

text \<open>
  The body of \<open>for i, r := range runes\<close>: the third argument is the part of \<open>runes\<close>
  still to visit, \<open>i\<close> the index of its head; \<open>lastClass\<close>, \<open>lastIdx\<close> and \<open>out\<close> are
  the loop's variables.
\<close>

fun camelLoop ::
  "golib \<Rightarrow> string list \<Rightarrow> string list \<Rightarrow> nat \<Rightarrow> charclass \<Rightarrow> nat \<Rightarrow> string list \<Rightarrow>
   string list" where
  "camelLoop lib runes [] i lastClass lastIdx out = out"
| "camelLoop lib runes (r # rs) i lastClass lastIdx out =
     (let class = charClass lib r;
          (out1, lastIdx1) =
            (if class \<noteq> lastClass then
               (if lastClass = classUpper \<and> class \<noteq> classNumber then
                  (if i - lastIdx > 1
                   then (out @ [concat (slice runes lastIdx (i - 1))], i - 1)
                   else (out, lastIdx))
                else (out @ [concat (slice runes lastIdx i)], i))
             else (out, lastIdx));
          out2 = (if i = length runes - 1 then out1 @ [concat (drop lastIdx1 runes)] else out1)
      in camelLoop lib runes rs (i + 1) class lastIdx1 out2)"

definition camelSplit :: "golib \<Rightarrow> string \<Rightarrow> string list" where
  "camelSplit lib src =
     (if src = [] then []
      else if length src < 2 then [src]
      else (let runes = toRunes src
            in camelLoop lib runes runes 0 (charClass lib (hd runes)) 0 []))"

section \<open>parseTag (field.go)\<close>

record FieldOptions =
  Help :: string
  DefaultVal :: string
  EnvName :: string
  Required :: bool

definition noOptions :: FieldOptions where
  "noOptions = \<lparr>Help = [], DefaultVal = [], EnvName = [], Required = False\<rparr>"

text \<open>The loop over \<open>tagParts\<close>; an error returns at once.\<close>

fun parseTagParts :: "golib \<Rightarrow> string list \<Rightarrow> FieldOptions \<Rightarrow> error + FieldOptions" where
  "parseTagParts lib [] f = Inr f"
| "parseTagParts lib (tagPart # rest) f =
     (case SplitN2 tagPart CHR '':'' of
        [tagProp] \<Rightarrow>
          parseTagParts lib rest (if tagProp = ''required'' then f\<lparr>Required := True\<rparr> else f)
      | [tagProp, val] \<Rightarrow>
          (let tagPropVal = TrimSpace lib val in
           if tagPropVal = [] then Inl (TagMissingValue tagProp)
           else parseTagParts lib rest
                  (if tagProp = ''default'' then f\<lparr>DefaultVal := tagPropVal\<rparr>
                   else if tagProp = ''env'' then f\<lparr>EnvName := tagPropVal\<rparr>
                   else if tagProp = ''help'' then f\<lparr>Help := tagPropVal\<rparr>
                   else f))
      | _ \<Rightarrow> parseTagParts lib rest f)"

definition parseTag :: "golib \<Rightarrow> string \<Rightarrow> error + FieldOptions" where
  "parseTag lib tagStr =
     (if tagStr = [] then Inr noOptions
      else (case parseTagParts lib (Split tagStr CHR '','') noOptions of
              Inl err \<Rightarrow> Inl err
            | Inr f \<Rightarrow>
                if Required f \<and> DefaultVal f \<noteq> []
                then Inl (Errorf ''cannot set both `required` and `default`'')
                else Inr f))"

section \<open>processField (field.go)\<close>

text \<open>A loop that calls \<open>f\<close> on each element in turn and returns the first error.\<close>

fun mapE :: "('a \<Rightarrow> error option \<times> 'b) \<Rightarrow> 'a list \<Rightarrow> error + 'b list" where
  "mapE f [] = Inr []"
| "mapE f (x # xs) =
     (case f x of
        (Some err, y) \<Rightarrow> Inl err
      | (None, y) \<Rightarrow> (case mapE f xs of Inl err \<Rightarrow> Inl err | Inr ys \<Rightarrow> Inr (y # ys)))"

text \<open>
  The loop over \<open>pairs\<close> of the map case: \<open>pk\<close> and \<open>pv\<close> are \<open>processField\<close> on a
  fresh key and a fresh element, \<open>mp\<close> is the map built so far.
\<close>

fun mapPairs ::
  "(string \<Rightarrow> error option \<times> gval) \<Rightarrow> (string \<Rightarrow> error option \<times> gval) \<Rightarrow>
   string list \<Rightarrow> (gval \<times> gval) list \<Rightarrow> error + (gval \<times> gval) list" where
  "mapPairs pk pv [] mp = Inr mp"
| "mapPairs pk pv (pair # rest) mp =
     (case Split pair CHR '':'' of
        [k0, v0] \<Rightarrow>
          (case pk k0 of
             (Some err, k) \<Rightarrow> Inl err
           | (None, k) \<Rightarrow>
               (case pv v0 of
                  (Some err, v) \<Rightarrow> Inl err
                | (None, v) \<Rightarrow> mapPairs pk pv rest (SetMapIndex mp k v)))
      | _ \<Rightarrow> Inl (InvalidMapItem pair))"

text \<open>
  \<open>processField settingDefault value field\<close>, the field given by its type and its
  current value; the result is the error returned and the field's value afterwards.
  \<open>typ\<close> and \<open>fld\<close> are the source's \<open>typ\<close> and \<open>field\<close> after the pointer step (one
  level; a nil pointer has been set to a new zero value). Every write of the source goes
  to \<open>fld\<close>: \<open>res\<close> is the error and the value of \<open>fld\<close> at the return, and for a
  pointer field the result is the pointer to it.
\<close>

function processField :: "golib \<Rightarrow> bool \<Rightarrow> string \<Rightarrow> gtype \<Rightarrow> gval \<Rightarrow> error option \<times> gval" where
  "processField lib settingDefault value ty cur =
     (let typ = (if isPtrKind ty then ptrElem ty else ty);
          fld = (if isPtrKind ty
                 then (case pointee cur of Some x \<Rightarrow> x | None \<Rightarrow> zero typ)
                 else cur);
          res =
       (if settingDefault \<and> \<not> IsZero typ fld then (None, fld)
        else (case SetterOf lib typ of
            Some setter \<Rightarrow> setter value fld
          | None \<Rightarrow>
         (case TextUnmarshalerOf lib typ of
            Some t \<Rightarrow> t value fld
          | None \<Rightarrow>
         (case BinaryUnmarshalerOf lib typ of
            Some b \<Rightarrow> b value fld
          | None \<Rightarrow>
         (case underlying typ of
            TString \<Rightarrow> (None, VString value)
          | TInt k \<Rightarrow>
              (case (if k = KInt64 \<and> isDuration typ then ParseDuration lib value
                     else ParseInt lib value (intBits lib k)) of
                 Inl err \<Rightarrow> (Some err, fld)
               | Inr val \<Rightarrow> (None, VInt (wrapInt (intBits lib k) val)))
          | TUint k \<Rightarrow>
              (case ParseUint lib value (uintBits lib k) of
                 Inl err \<Rightarrow> (Some err, fld)
               | Inr val \<Rightarrow> (None, VUint (wrapUint (uintBits lib k) val)))
          | TBool \<Rightarrow>
              (case ParseBool lib value of
                 Inl err \<Rightarrow> (Some err, fld)
               | Inr val \<Rightarrow> (None, VBool val))
          | TFloat w \<Rightarrow>
              (case ParseFloat lib value w of
                 Inl err \<Rightarrow> (Some err, fld)
               | Inr val \<Rightarrow> (None, VFloat val))
          | TSlice e \<Rightarrow>
              (case mapE (\<lambda>val. processField lib False val e (zero e)) (Split value CHR '';'') of
                 Inl err \<Rightarrow> (Some err, fld)
               | Inr sl \<Rightarrow> (None, VSlice (Some sl)))
          | TMap kt vt \<Rightarrow>
              (if length (TrimSpace lib value) \<noteq> 0
               then (case mapPairs (\<lambda>s. processField lib False s kt (zero kt))
                                   (\<lambda>s. processField lib False s vt (zero vt))
                                   (Split value CHR '';'') [] of
                       Inl err \<Rightarrow> (Some err, fld)
                     | Inr mp \<Rightarrow> (None, VMap (Some mp)))
               else (None, VMap (Some [])))
          | _ \<Rightarrow> (Some (UnsupportedType typ), fld))))))
      in (fst res, if isPtrKind ty then VPtr (Some (snd res)) else snd res))"
  by pat_completeness auto
termination
proof (relation "measure (\<lambda>(lib, sd, v, ty, cur). size ty)", goal_cases)
  case 1
  show ?case by simp
next
  case (2 lib sd v ty cur tp fld e val)
  have "size (underlying tp) \<le> size tp" by (rule size_underlying)
  moreover have "size tp \<le> size ty" using 2 by (auto simp: size_ptrElem)
  ultimately show ?case using 2 by simp
next
  case (3 lib sd v ty cur tp fld kt vt s)
  have "size (underlying tp) \<le> size tp" by (rule size_underlying)
  moreover have "size tp \<le> size ty" using 3 by (auto simp: size_ptrElem)
  ultimately show ?case using 3 by simp
next
  case (4 lib sd v ty cur tp fld kt vt s)
  have "size (underlying tp) \<le> size tp" by (rule size_underlying)
  moreover have "size tp \<le> size ty" using 4 by (auto simp: size_ptrElem)
  ultimately show ?case using 4 by simp
qed

declare processField.simps [simp del]

section \<open>extractFields (field.go)\<close>

text \<open>
  The \<open>reflect.Value\<close> a descriptor holds is a place inside the destination struct: the
  path to it from the struct, a field index or a pointer dereference at each step.
  \<open>getAt\<close> reads the place and \<open>putAt\<close> writes it. The paths \<open>extractFields\<close> makes
  always fit the struct; on a path that does not fit, reading gives \<open>VOther 0\<close> and
  writing changes nothing.
\<close>

datatype pstep = PField nat | PElem

fun getAt :: "gval \<Rightarrow> pstep list \<Rightarrow> gval" where
  "getAt v [] = v"
| "getAt (VStruct vs) (PField i # p) = (if i < length vs then getAt (vs ! i) p else VOther 0)"
| "getAt (VPtr (Some x)) (PElem # p) = getAt x p"
| "getAt v (st # p) = VOther 0"

fun putAt :: "gval \<Rightarrow> pstep list \<Rightarrow> gval \<Rightarrow> gval" where
  "putAt v [] new = new"
| "putAt (VStruct vs) (PField i # p) new =
     (if i < length vs then VStruct (vs[i := putAt (vs ! i) p new]) else VStruct vs)"
| "putAt (VPtr (Some x)) (PElem # p) new = VPtr (Some (putAt x p new))"
| "putAt v (st # p) new = v"

record Field =
  Name :: string
  EnvKeys :: "string list"
  Handle :: "pstep list"
  FType :: gtype
  Options :: FieldOptions

definition under :: "pstep list \<Rightarrow> Field \<Rightarrow> Field" where
  "under p fld = fld\<lparr>Handle := p @ Handle fld\<rparr>"

lemma size_ptrElem_less: "isPtrKind t \<Longrightarrow> size (ptrElem t) < size t"
proof -
  assume p: "isPtrKind t"
  then obtain e where e: "underlying t = TPtr e"
    by (auto simp: isPtrKind_def split: gtype.splits)
  have "size (underlying t) \<le> size t" by (rule size_underlying)
  with e show ?thesis by (simp add: ptrElem_def)
qed

text \<open>
  The loop \<open>for f.Kind() == reflect.Ptr\<close>: the type of \<open>f\<close> when it ends, the number
  of \<open>Elem()\<close> steps taken, and the value of the struct field afterwards (a nil pointer to
  a struct has been set to a new zero struct).
\<close>

function drill :: "gtype \<Rightarrow> gval \<Rightarrow> gtype \<times> nat \<times> gval" where
  "drill ty f =
     (if isPtrKind ty then
        (case pointee f of
           Some x \<Rightarrow>
             (case drill (ptrElem ty) x of (t, d, x') \<Rightarrow> (t, Suc d, VPtr (Some x')))
         | None \<Rightarrow>
             if \<not> isStructKind (ptrElem ty) then (ty, 0, f)
             else (case drill (ptrElem ty) (zero (ptrElem ty)) of
                     (t, d, x') \<Rightarrow> (t, Suc d, VPtr (Some x'))))
      else (ty, 0, f))"
  by pat_completeness auto
termination
  by (relation "measure (\<lambda>(ty, f). size ty)") (auto simp: size_ptrElem_less)

declare drill.simps [simp del]

lemma size_drill: "size (fst (drill ty f)) \<le> size ty"
proof (induction ty f rule: drill.induct)
  case (1 ty f)
  show ?case
  proof (cases "isPtrKind ty")
    case False
    then show ?thesis by (simp add: drill.simps [of ty f])
  next
    case True
    note lt = size_ptrElem_less [OF True]
    show ?thesis
    proof (cases "pointee f")
      case (Some x)
      have "size (fst (drill (ptrElem ty) x)) \<le> size (ptrElem ty)"
        using "1.IH" True Some by blast
      with lt Some True show ?thesis
        by (auto simp: drill.simps [of ty f] split: prod.splits)
    next
      case None
      show ?thesis
      proof (cases "isStructKind (ptrElem ty)")
        case False
        with None True show ?thesis
          by (simp add: drill.simps [of ty f])
      next
        case s: True
        have "size (fst (drill (ptrElem ty) (zero (ptrElem ty)))) \<le> size (ptrElem ty)"
          using "1.IH" True None s by blast
        with lt s None True show ?thesis
          by (auto simp: drill.simps [of ty f] split: prod.splits)
      qed
    qed
  qed
qed

lemma size_drill2: "(t, r) = drill ty f \<Longrightarrow> size t \<le> size ty"
  using size_drill [of ty f] by (metis fst_conv)

definition hasHook :: "golib \<Rightarrow> gtype \<Rightarrow> bool" where
  "hasHook lib t =
     (SetterOf lib t \<noteq> None \<or> TextUnmarshalerOf lib t \<noteq> None \<or> BinaryUnmarshalerOf lib t \<noteq> None)"

text \<open>
  \<open>extractFields prefix target\<close>, the target given by its dynamic type and value; the
  result is the descriptors or the error, and the target afterwards. \<open>extractLoop\<close> is
  the loop over the struct's fields from index \<open>i\<close> on, on the types and the values of
  the fields still to visit; it gives their values afterwards. The handles of the
  descriptors are relative to the struct \<open>target\<close> points to.
\<close>

function extractFields ::
    "golib \<Rightarrow> string list \<Rightarrow> gtype \<Rightarrow> gval \<Rightarrow> (error + Field list) \<times> gval"
  and extractLoop ::
    "golib \<Rightarrow> string list \<Rightarrow> gtype sfield list \<Rightarrow> gval list \<Rightarrow> nat \<Rightarrow>
     (error + Field list) \<times> gval list" where
  "extractFields lib prefix ty target =
     (if \<not> isPtrKind ty then (Inl ErrInvalidStruct, target)
      else (case pointee target of
              None \<Rightarrow> (Inl ErrInvalidStruct, target)
            | Some s \<Rightarrow>
                (case fieldsOf (ptrElem ty) of
                   None \<Rightarrow> (Inl ErrInvalidStruct, target)
                 | Some fs \<Rightarrow>
                     (case valuesOf s of
                        None \<Rightarrow> (Inl ErrInvalidStruct, target)
                      | Some vs \<Rightarrow>
                          (case extractLoop lib prefix fs vs 0 of
                             (r, vs') \<Rightarrow> (r, VPtr (Some (VStruct vs'))))))))"
| "extractLoop lib prefix [] vs i = (Inr [], vs)"
| "extractLoop lib prefix (sf # fs) [] i = (Inr [], [])"
| "extractLoop lib prefix (sf # fs) (f # vs) i =
     (if \<not> fexported sf \<or> ftag sf = ''-'' then
        (case extractLoop lib prefix fs vs (Suc i) of (r, vs') \<Rightarrow> (r, f # vs'))
      else
        (case parseTag lib (ftag sf) of
           Inl err \<Rightarrow>
             (Inl (Wrapf (''conf: error parsing tags for field '' @ fname sf @ '': '') err),
              f # vs)
         | Inr fieldOpts \<Rightarrow>
             (let fieldKey = prefix @ camelSplit lib (fname sf) in
              (case drill (ftype sf) f of
                 (t, d, f1) \<Rightarrow>
                   if isStructKind t \<and> \<not> hasHook lib t then
                     (let innerPrefix = (if fanon sf then prefix else fieldKey);
                          here = replicate d PElem
                      in (case extractFields lib innerPrefix (TPtr t) (VPtr (Some (getAt f1 here))) of
                            (Inl err, p) \<Rightarrow>
                              (Inl err,
                               (case pointee p of Some s \<Rightarrow> putAt f1 here s | None \<Rightarrow> f1) # vs)
                          | (Inr innerFields, p) \<Rightarrow>
                              (case extractLoop lib prefix fs vs (Suc i) of
                                 (r, vs') \<Rightarrow>
                                   ((case r of
                                       Inl err \<Rightarrow> Inl err
                                     | Inr rest \<Rightarrow>
                                         Inr (map (under (PField i # here)) innerFields @ rest)),
                                    (case pointee p of Some s \<Rightarrow> putAt f1 here s | None \<Rightarrow> f1)
                                      # vs'))))
                   else
                     (let envKey = (if EnvName fieldOpts \<noteq> []
                                    then Split (EnvName fieldOpts) CHR ''_''
                                    else fieldKey);
                          fld = \<lparr>Name = fname sf, EnvKeys = envKey,
                                 Handle = PField i # replicate d PElem, FType = t,
                                 Options = fieldOpts\<rparr>
                      in (case extractLoop lib prefix fs vs (Suc i) of
                            (r, vs') \<Rightarrow>
                              ((case r of Inl err \<Rightarrow> Inl err | Inr rest \<Rightarrow> Inr (fld # rest)),
                               f1 # vs')))))))"
  by pat_completeness auto
termination
proof (relation "measure (\<lambda>x. case x of
          Inl (lib, prefix, ty, target) \<Rightarrow> size ty
        | Inr (lib, prefix, fs, vs, i) \<Rightarrow> size_list (size_sfield size) fs)", goal_cases)
  case 1
  show ?case by simp
next
  case (2 lib prefix ty target s fs vs)
  have "size (underlying (ptrElem ty)) \<le> size (ptrElem ty)" by (rule size_underlying)
  moreover have "size (ptrElem ty) < size ty" using 2 by (simp add: size_ptrElem_less)
  moreover have "underlying (ptrElem ty) = TStruct fs"
    using 2 by (auto simp: fieldsOf_def split: gtype.splits)
  ultimately show ?case by simp
next
  case 3
  then show ?case by simp
next
  case (4 lib prefix sf fs f vs i fieldOpts fieldKey x t y d f1)
  then show ?case by (cases sf) (auto dest: size_drill2)
next
  case 5
  then show ?case by simp
next
  case 6
  then show ?case by simp
qed

declare extractFields.simps [simp del]

section \<open>The environment snapshot: newEnv and env.Value\<close>

text \<open>
  \<open>os.Environ()\<close> is a list of strings \<open>key=value\<close>, given here as the pairs they are
  made of. \<open>newEnv prefix include\<close> builds the map \<open>m\<close> of the \<open>env\<close> struct.
\<close>

fun envLoop ::
  "golib \<Rightarrow> string \<Rightarrow> string list \<Rightarrow> (string \<times> string) list \<Rightarrow> (string \<rightharpoonup> string) \<Rightarrow>
   (string \<rightharpoonup> string)" where
  "envLoop lib namespace incl [] m = m"
| "envLoop lib namespace incl ((key, v) # rest) m =
     (let val = key @ ''='' @ v;
          idx = IndexByte val CHR ''='';
          givenEnvName = (take idx val \<in> set incl)
      in if \<not> HasPrefix val namespace \<and> \<not> givenEnvName then envLoop lib namespace incl rest m
         else envLoop lib namespace incl rest
                (m(ToUpper lib (TrimPrefix (take idx val) namespace) \<mapsto> drop (idx + 1) val)))"

definition newEnv :: "golib \<Rightarrow> string \<Rightarrow> string list \<Rightarrow> (string \<times> string) list \<Rightarrow> (string \<rightharpoonup> string)" where
  "newEnv lib prefix incl environ =
     (let namespace0 = ToUpper lib prefix @ ''_'';
          namespace = (if prefix = [] then drop 1 namespace0 else namespace0)
      in envLoop lib namespace incl environ Map.empty)"

definition envValue :: "golib \<Rightarrow> (string \<rightharpoonup> string) \<Rightarrow> Field \<Rightarrow> string option" where
  "envValue lib m fld = m (ToUpper lib (Join (EnvKeys fld) ''_''))"

section \<open>Parse (conf.go)\<close>

text \<open>
  The body of the loop over \<open>fields\<close>, on the current value of the field: the error
  \<open>Parse\<close> returns from this field, if any, and the field's value afterwards.
\<close>

definition requiredError :: "Field \<Rightarrow> error" where
  "requiredError field = Errorf (''required field '' @ Name field @ '' is missing value'')"

definition bindField :: "golib \<Rightarrow> (string \<rightharpoonup> string) \<Rightarrow> Field \<Rightarrow> gval \<Rightarrow> error option \<times> gval" where
  "bindField lib env field cur =
     (case (if DefaultVal (Options field) \<noteq> []
            then processField lib True (DefaultVal (Options field)) (FType field) cur
            else (None, cur)) of
        (Some err, cur1) \<Rightarrow>
          (Some (FieldError (Name field) (FType field) (DefaultVal (Options field)) err), cur1)
      | (None, cur1) \<Rightarrow>
          (case envValue lib env field of
             None \<Rightarrow>
               if Required (Options field) then (Some (requiredError field), cur1)
               else (None, cur1)
           | Some value \<Rightarrow>
               (case processField lib False value (FType field) cur1 of
                  (Some err, cur2) \<Rightarrow>
                    (Some (FieldError (Name field) (FType field) value err), cur2)
                | (None, cur2) \<Rightarrow> (None, cur2))))"

text \<open>The loop itself, on the struct the handles point into.\<close>

fun processFields ::
  "golib \<Rightarrow> (string \<rightharpoonup> string) \<Rightarrow> Field list \<Rightarrow> gval \<Rightarrow> error option \<times> gval" where
  "processFields lib env [] root = (None, root)"
| "processFields lib env (field # rest) root =
     (case bindField lib env field (getAt root (Handle field)) of
        (Some err, cur') \<Rightarrow> (Some err, putAt root (Handle field) cur')
      | (None, cur') \<Rightarrow> processFields lib env rest (putAt root (Handle field) cur'))"

definition specifiedEnvNames :: "Field list \<Rightarrow> string list" where
  "specifiedEnvNames flds =
     map (\<lambda>f. EnvName (Options f)) (filter (\<lambda>f. EnvName (Options f) \<noteq> []) flds)"

text \<open>
  \<open>Parse prefix cfg\<close>, with the process environment and \<open>cfg\<close> given by its dynamic type
  and value: the error returned (\<open>None\<close> for nil) and \<open>cfg\<close> afterwards.
\<close>

definition Parse ::
  "golib \<Rightarrow> (string \<times> string) list \<Rightarrow> string \<Rightarrow> gtype \<Rightarrow> gval \<Rightarrow> error option \<times> gval" where
  "Parse lib environ prefix ty cfg =
     (case extractFields lib [] ty cfg of
        (Inl err, cfg') \<Rightarrow> (Some err, cfg')
      | (Inr flds, cfg') \<Rightarrow>
          if length flds = 0
          then (Some (Errorf ''no fields identified in config struct''), cfg')
          else (let env = newEnv lib prefix (specifiedEnvNames flds) environ
                in (case pointee cfg' of
                      Some root \<Rightarrow>
                        (case processFields lib env flds root of
                           (err, root') \<Rightarrow> (err, VPtr (Some root')))
                    | None \<Rightarrow> (None, cfg'))))"

section \<open>An instance of the library for evaluating examples\<close>

text \<open>
  \<open>decimalLib\<close> gives the parameters values on which examples can be computed: a
  64-bit platform, no type with a method of its own, \<open>strconv.ParseBool\<close> in full, and
  \<open>strconv.ParseInt\<close> and \<open>strconv.ParseUint\<close> on plain decimal literals (no sign,
  no leading zero), where they agree with Go; every other literal is rejected here. The
  examples are in ASCII, where the \<open>unicode\<close> tables of the instance are not consulted;
  the one example outside ASCII sets the table it needs.
  The theorems below hold for every library; only examples use this one.
\<close>

fun decNat :: "string \<Rightarrow> nat \<Rightarrow> nat option" where
  "decNat [] acc = Some acc"
| "decNat (c # cs) acc =
     (case map_of (zip digits [0, 1, 2, 3, 4, 5, 6, 7, 8, 9]) c of
        None \<Rightarrow> None
      | Some d \<Rightarrow> decNat cs (10 * acc + d))"

definition decimal :: "string \<Rightarrow> nat option" where
  "decimal s = (if s = [] \<or> (length s > 1 \<and> hd s = CHR ''0'') then None else decNat s 0)"

definition decimalLib :: golib where
  "decimalLib =
     \<lparr>IntSize = 64,
      ParseInt = (\<lambda>s bits.
        case decimal s of
          Some n \<Rightarrow> if n < 2 ^ (bits - 1) then Inr (int n) else Inl (LibError ''strconv.ParseInt'')
        | None \<Rightarrow> Inl (LibError ''strconv.ParseInt'')),
      ParseUint = (\<lambda>s bits.
        case decimal s of
          Some n \<Rightarrow> if n < 2 ^ bits then Inr n else Inl (LibError ''strconv.ParseUint'')
        | None \<Rightarrow> Inl (LibError ''strconv.ParseUint'')),
      ParseBool = (\<lambda>s.
        if s \<in> set [''1'', ''t'', ''T'', ''TRUE'', ''true'', ''True''] then Inr True
        else if s \<in> set [''0'', ''f'', ''F'', ''FALSE'', ''false'', ''False''] then Inr False
        else Inl (LibError ''strconv.ParseBool'')),
      ParseFloat = (\<lambda>s bits. Inl (LibError ''strconv.ParseFloat'')),
      ParseDuration = (\<lambda>s. Inl (LibError ''time.ParseDuration'')),
      SetterOf = (\<lambda>t. None),
      TextUnmarshalerOf = (\<lambda>t. None),
      BinaryUnmarshalerOf = (\<lambda>t. None),
      UniLower = (\<lambda>r. False),
      UniUpper = (\<lambda>r. False),
      UniDigit = (\<lambda>r. False),
      UniSpace = (\<lambda>r. False),
      UniToUpper = (\<lambda>r. r)\<rparr>"

section \<open>Notions used to state the properties\<close>

text \<open>
  The value a destination holds, through its pointer when it is one: what
  \<open>processField\<close> calls \<open>field\<close> after its pointer step.
\<close>

definition heldValue :: "gtype \<Rightarrow> gval \<Rightarrow> gval" where
  "heldValue ty cur =
     (if isPtrKind ty then (case pointee cur of Some x \<Rightarrow> x | None \<Rightarrow> zero (ptrElem ty))
      else cur)"

text \<open>The type of that value: what \<open>processField\<close> calls \<open>typ\<close> after its pointer step.\<close>

definition heldType :: "gtype \<Rightarrow> gtype" where
  "heldType ty = (if isPtrKind ty then ptrElem ty else ty)"

text \<open>
  A directive has a \<open>key:\<close> clause with an empty value: one of its comma-separated
  clauses holds a colon and nothing but white space after the first one. A directive
  declares both \<open>required\<close> and a default: one clause is \<open>required\<close>, another starts
  with \<open>default:\<close>.
\<close>

definition clauseValue :: "golib \<Rightarrow> string \<Rightarrow> string" where
  "clauseValue lib part = TrimSpace lib (tl (dropWhile (\<lambda>c. c \<noteq> CHR '':'') part))"

definition clauseMissingValue :: "golib \<Rightarrow> string \<Rightarrow> bool" where
  "clauseMissingValue lib tag =
     list_ex (\<lambda>part. CHR '':'' \<in> set part \<and> clauseValue lib part = []) (Split tag CHR '','')"

definition requiredWithDefault :: "string \<Rightarrow> bool" where
  "requiredWithDefault tag =
     (''required'' \<in> set (Split tag CHR '','') \<and>
      list_ex (\<lambda>part. CHR '':'' \<in> set part \<and> takeWhile (\<lambda>c. c \<noteq> CHR '':'') part = ''default'')
        (Split tag CHR '',''))"





text \<open>
  Putting the path segments \<open>p\<close> in front of a descriptor's key, unless the descriptor
  has an explicit environment name, whose key does not come from the path.
\<close>

definition addPrefix :: "string list \<Rightarrow> Field \<Rightarrow> Field" where
  "addPrefix p fld =
     (if EnvName (Options fld) \<noteq> [] then fld else fld\<lparr>EnvKeys := p @ EnvKeys fld\<rparr>)"

definition liftKeys :: "string list \<Rightarrow> (error + Field list) \<times> 'a \<Rightarrow> (error + Field list) \<times> 'a" where
  "liftKeys p r =
     (case r of (Inl err, v) \<Rightarrow> (Inl err, v) | (Inr fl, v) \<Rightarrow> (Inr (map (addPrefix p) fl), v))"

text \<open>A path fits a value when every step of it applies.\<close>

fun fits :: "gval \<Rightarrow> pstep list \<Rightarrow> bool" where
  "fits v [] = True"
| "fits (VStruct vs) (PField i # p) = (i < length vs \<and> fits (vs ! i) p)"
| "fits (VPtr (Some x)) (PElem # p) = fits x p"
| "fits v (st # p) = False"

text \<open>
  The struct a zero-valued destination of struct type \<open>t\<close> is expected to become when
  only defaults apply, described field by field: a field that is unexported or tagged
  \<open>-\<close> keeps its zero value; a field that is a struct without methods of its own is
  filled the same way; a nil pointer to a struct becomes a pointer to a struct filled
  the same way; any other field holds its declared default coerced to its type, or its
  zero value when it declares none.
\<close>


function defaultsOf :: "golib \<Rightarrow> gtype \<Rightarrow> gval"
  and fieldDefault :: "golib \<Rightarrow> gtype sfield \<Rightarrow> gval" where
  "defaultsOf lib t =
     (case fieldsOf t of
        None \<Rightarrow> zero t
      | Some fs \<Rightarrow> VStruct (map (\<lambda>sf. fieldDefault lib sf) fs))"
| "fieldDefault lib sf =
     (if \<not> fexported sf \<or> ftag sf = ''-'' then zero (ftype sf)
      else (let dflt = (case parseTag lib (ftag sf) of Inr opts \<Rightarrow> DefaultVal opts | Inl err \<Rightarrow> []);
                leaf = (\<lambda>ty. if dflt \<noteq> [] then snd (processField lib True dflt ty (zero ty))
                              else zero ty)
            in if isPtrKind (ftype sf) \<and> isStructKind (ptrElem (ftype sf)) then
                 VPtr (Some (if hasHook lib (ptrElem (ftype sf)) then leaf (ptrElem (ftype sf))
                             else defaultsOf lib (ptrElem (ftype sf))))
               else if isStructKind (ftype sf) \<and> \<not> hasHook lib (ftype sf) then
                 defaultsOf lib (ftype sf)
               else leaf (ftype sf)))"
  by pat_completeness auto
termination
proof (relation "measure (\<lambda>x. case x of Inl (lib, t) \<Rightarrow> 2 * size t + 1
                                      | Inr (lib, sf) \<Rightarrow> 2 * size (ftype sf) + 2)", goal_cases)
  case 1
  show ?case by simp
next
  case (2 lib t fs sf)
  then show ?case using size_field_of_struct [of t fs sf] by simp
next
  case (3 lib sf dflt leaf)
  then show ?case using size_ptrElem_less [of "ftype sf"] by simp
next
  case (4 lib sf dflt leaf)
  then show ?case by simp
qed


declare defaultsOf.simps [simp del] fieldDefault.simps [simp del]

text \<open>
  A descriptor is quiet when only its default can apply and applies without error: it is
  not required, the snapshot has no entry for its key, and its default, if it declares
  one, is accepted by the coercion of its type.
\<close>

definition quiet :: "golib \<Rightarrow> (string \<rightharpoonup> string) \<Rightarrow> Field \<Rightarrow> bool" where
  "quiet lib env fld =
     (\<not> Required (Options fld) \<and> envValue lib env fld = None \<and>
      (DefaultVal (Options fld) \<noteq> [] \<longrightarrow>
         fst (processField lib True (DefaultVal (Options fld)) (FType fld) (zero (FType fld))) = None))"


text \<open>
  Two places of a struct are apart when neither lies inside the other; the places of a
  list are apart when any two of them are.
\<close>

fun indep :: "pstep list \<Rightarrow> pstep list \<Rightarrow> bool" where
  "indep (a # p) (b # q) = (a \<noteq> b \<or> indep p q)"
| "indep p q = False"

fun apart :: "pstep list list \<Rightarrow> bool" where
  "apart [] = True"
| "apart (h # hs) = ((\<forall>h'\<in>set hs. indep h h') \<and> apart hs)"

text \<open>
  A struct, given by the list of its fields and the list of their values, holds a faulty
  directive when one of its settable fields has a directive with a \<open>key:\<close> clause without
  value or with both \<open>required\<close> and a default, or when one of its settable fields not
  tagged \<open>-\<close> is, through pointers (a nil pointer to a struct counting as a pointer to a
  new struct), a struct without methods of its own that holds a faulty directive.
\<close>

inductive faulty :: "golib \<Rightarrow> gtype sfield list \<Rightarrow> gval list \<Rightarrow> bool" for lib where
  here:
    "j < length fs \<Longrightarrow> j < length vs \<Longrightarrow> fexported (fs ! j) \<Longrightarrow>
     clauseMissingValue lib (ftag (fs ! j)) \<or> requiredWithDefault (ftag (fs ! j)) \<Longrightarrow>
     faulty lib fs vs"
| inside:
    "j < length fs \<Longrightarrow> j < length vs \<Longrightarrow> fexported (fs ! j) \<Longrightarrow> ftag (fs ! j) \<noteq> ''-'' \<Longrightarrow>
     drill (ftype (fs ! j)) (vs ! j) = (t, d, f1) \<Longrightarrow>
     isStructKind t \<Longrightarrow> \<not> hasHook lib t \<Longrightarrow> fieldsOf t = Some fs' \<Longrightarrow>
     valuesOf (getAt f1 (replicate d PElem)) = Some vs' \<Longrightarrow> faulty lib fs' vs' \<Longrightarrow>
     faulty lib fs vs"


section \<open>Basic facts\<close>

lemma IsZero_simps [simp]:
  "IsZero t (VBool b) = (\<not> b)"
  "IsZero t (VString s) = (s = [])"
  "IsZero t (VInt i) = (i = 0)"
  "IsZero t (VUint n) = (n = 0)"
  "IsZero t (VFloat bits) = (bits = 0 \<or> bits = 2 ^ 63)"
  "IsZero t (VPtr p) = (p = None)"
  "IsZero t (VSlice sl) = (sl = None)"
  "IsZero t (VMap m) = (m = None)"
  "IsZero t (VOther n) = (n = 0)"
  "IsZero t (VStruct vs) =
     (case fieldsOf t of
        Some fs \<Rightarrow> list_all (\<lambda>(sf, x). fname sf = ''_'' \<or> IsZero (ftype sf) x) (zip fs vs)
      | None \<Rightarrow> vs = [])"
  by (simp_all add: IsZero.simps [of t])

lemma underlying_idem [simp]: "underlying (underlying t) = underlying t"
  by (induction t rule: underlying.induct) auto

lemma IsZero_underlying: "IsZero t v = IsZero (underlying t) v"
  by (cases v) (simp_all add: fieldsOf_def)

lemma IsZero_zero: "IsZero t (zero t)"
proof (induction t rule: zero.induct)
  case (9 fs)
  then have "\<forall>sf\<in>set fs. IsZero (ftype sf) (zero (ftype sf))" by simp
  then show ?case
    by (simp add: fieldsOf_def list_all_iff zip_map2 zip_same_conv_map)
next
  case (10 pkg name t)
  then show ?case using IsZero_underlying [of "TNamed pkg name t" "zero t"]
      IsZero_underlying [of t "zero t"] by simp
qed simp_all

lemma pointee_Some: "pointee cur = Some x \<Longrightarrow> cur = VPtr (Some x)"
  by (cases cur) (auto simp: pointee_def)








lemma HasPrefix_append: "HasPrefix (p @ s) p"
  by (simp add: HasPrefix_def)

lemma HasPrefix_extend:
  assumes "HasPrefix s p"
  shows "HasPrefix (s @ t) p"
proof -
  from assms have h: "take (length p) s = p" by (simp add: HasPrefix_def)
  then have "length (take (length p) s) = length p" by simp
  then have "length p \<le> length s" by simp
  with h show ?thesis by (simp add: HasPrefix_def)
qed


section \<open>Coercion: pointers and default mode\<close>

text \<open>
  Claim C10. When \<open>processField\<close> is given a pointer-typed destination that is nil, it
  behaves exactly as on a pointer to a new zero value of the pointee type, whether it is
  setting a default or not; and whatever the pointer was, the destination is a non-nil
  pointer afterwards. So the coercion never writes through a nil pointer, also for the
  nil pointers to non-structs that \<open>extractFields\<close> leaves alone.
\<close>

theorem processField_allocates_nil_pointer:
  assumes "isPtrKind ty"
  shows "processField lib sd value ty (VPtr None) =
           processField lib sd value ty (VPtr (Some (zero (ptrElem ty))))
         \<and> (\<exists>x. snd (processField lib sd value ty cur) = VPtr (Some x))"
proof
  show "processField lib sd value ty (VPtr None) =
           processField lib sd value ty (VPtr (Some (zero (ptrElem ty))))"
    using assms
    by (simp add: processField.simps [of lib sd "value" ty "VPtr None"]
        processField.simps [of lib sd "value" ty "VPtr (Some (zero (ptrElem ty)))"] pointee_def)
  show "\<exists>x. snd (processField lib sd value ty cur) = VPtr (Some x)"
    using assms
    by (simp add: processField.simps [of lib sd "value" ty cur] Let_def)
qed

text \<open>The theorem at a nil \<open>*int\<close>, in both modes: the pointer is set and points to 7.\<close>

theorem processField_allocates_nil_pointer_witness:
  "isPtrKind (TPtr (TInt KInt)) \<and>
   processField decimalLib False ''7'' (TPtr (TInt KInt)) (VPtr None)
     = (None, VPtr (Some (VInt 7))) \<and>
   processField decimalLib True ''7'' (TPtr (TInt KInt)) (VPtr None)
     = (None, VPtr (Some (VInt 7)))"
proof -
  have p: "isPtrKind (TPtr (TInt KInt))" by (simp add: isPtrKind_def)
  have a: "processField decimalLib False ''7'' (TPtr (TInt KInt))
             (VPtr (Some (zero (ptrElem (TPtr (TInt KInt)))))) = (None, VPtr (Some (VInt 7)))"
    by (simp add: processField.simps isPtrKind_def ptrElem_def pointee_def decimalLib_def
        decimal_def digits_def wrapInt_def)
  have b: "processField decimalLib True ''7'' (TPtr (TInt KInt))
             (VPtr (Some (zero (ptrElem (TPtr (TInt KInt)))))) = (None, VPtr (Some (VInt 7)))"
    by (simp add: processField.simps isPtrKind_def ptrElem_def pointee_def decimalLib_def
        decimal_def digits_def wrapInt_def)
  from processField_allocates_nil_pointer [OF p, of decimalLib False "''7''"]
    processField_allocates_nil_pointer [OF p, of decimalLib True "''7''"] a b p
  show ?thesis by simp
qed

text \<open>
  Claim C9, as stated, fails on a pointer destination: a non-nil \<open>*int\<close> that points to
  0 holds a non-zero value (the pointer), yet the default is written to its pointee,
  because \<open>processField\<close> steps through the pointer before it tests \<open>IsZero\<close>.
\<close>

theorem default_mode_writes_through_nonnil_pointer:
  "\<not> IsZero (TPtr (TInt KInt)) (VPtr (Some (VInt 0))) \<and>
   processField decimalLib True ''5'' (TPtr (TInt KInt)) (VPtr (Some (VInt 0)))
     = (None, VPtr (Some (VInt 5)))"
  by (simp add: processField.simps isPtrKind_def ptrElem_def pointee_def decimalLib_def
      decimal_def digits_def wrapInt_def)

text \<open>
  Claim C9, amended. When the value the destination holds, through its pointer when the
  destination is a pointer, is non-zero, \<open>processField\<close> in default mode returns no error
  and leaves the destination as it is; so does a second default applied after it. When
  that value is zero, default mode does what overwrite mode does, also through a non-nil
  pointer: a non-nil pointer to an empty string gets the default written to its pointee.
\<close>

theorem default_mode_skips_nonzero_held_value:
  "(\<not> IsZero (heldType ty) (heldValue ty cur) \<longrightarrow>
      processField lib True value ty cur = (None, cur) \<and>
      processField lib True value2 ty (snd (processField lib True value ty cur)) = (None, cur)) \<and>
   (IsZero (heldType ty) (heldValue ty cur) \<longrightarrow>
      processField lib True value ty cur = processField lib False value ty cur) \<and>
   (isPtrKind ty \<and> underlying (ptrElem ty) = TString \<and> \<not> hasHook lib (ptrElem ty) \<longrightarrow>
      processField lib True value ty (VPtr (Some (VString [])))
        = (None, VPtr (Some (VString value))))"
proof (intro conjI impI)
  assume nz: "\<not> IsZero (heldType ty) (heldValue ty cur)"
  have one: "processField lib True v ty cur = (None, cur)" for v
  proof (cases "isPtrKind ty")
    case False
    with nz show ?thesis
      by (simp add: processField.simps [of lib True v ty cur] heldValue_def heldType_def)
  next
    case True
    show ?thesis
    proof (cases "pointee cur")
      case None
      with True nz show ?thesis by (simp add: heldValue_def heldType_def IsZero_zero)
    next
      case (Some x)
      then have c: "cur = VPtr (Some x)" by (rule pointee_Some)
      from True Some nz have "processField lib True v ty cur = (None, VPtr (Some x))"
        by (simp add: processField.simps [of lib True v ty cur] heldValue_def heldType_def)
      with c show ?thesis by simp
    qed
  qed
  show "processField lib True value ty cur = (None, cur)" by (rule one)
  show "processField lib True value2 ty (snd (processField lib True value ty cur)) = (None, cur)"
    by (simp add: one)
next
  assume z: "IsZero (heldType ty) (heldValue ty cur)"
  show "processField lib True value ty cur = processField lib False value ty cur"
  proof (cases "isPtrKind ty")
    case True
    with z have "IsZero (ptrElem ty)
        (case pointee cur of None \<Rightarrow> zero (ptrElem ty) | Some x \<Rightarrow> x)"
      by (simp add: heldValue_def heldType_def)
    with True show ?thesis
      by (simp add: processField.simps [of lib True "value" ty cur]
          processField.simps [of lib False "value" ty cur])
  next
    case False
    with z have "IsZero ty cur" by (simp add: heldValue_def heldType_def)
    with False show ?thesis
      by (simp add: processField.simps [of lib True "value" ty cur]
          processField.simps [of lib False "value" ty cur])
  qed
next
  assume a: "isPtrKind ty \<and> underlying (ptrElem ty) = TString \<and> \<not> hasHook lib (ptrElem ty)"
  then show "processField lib True value ty (VPtr (Some (VString [])))
        = (None, VPtr (Some (VString value)))"
    by (simp add: processField.simps [of lib True "value" ty] hasHook_def pointee_def)
qed

text \<open>The theorem at an \<open>int\<close> that holds 3, with the default 9, at a \<open>float64\<close> that
  holds \<open>-0\<close>, which is zero, and at a non-nil \<open>*string\<close> that points to the empty
  string.\<close>

theorem default_mode_skips_nonzero_held_value_witness:
  "\<not> IsZero (heldType (TInt KInt)) (heldValue (TInt KInt) (VInt 3)) \<and>
   processField decimalLib True ''9'' (TInt KInt) (VInt 3) = (None, VInt 3) \<and>
   IsZero (heldType (TFloat 64)) (heldValue (TFloat 64) (VFloat (2 ^ 63))) \<and>
   processField decimalLib True ''1.5'' (TFloat 64) (VFloat (2 ^ 63))
     = processField decimalLib False ''1.5'' (TFloat 64) (VFloat (2 ^ 63)) \<and>
   processField decimalLib True ''x'' (TPtr TString) (VPtr (Some (VString [])))
     = (None, VPtr (Some (VString ''x'')))"
proof -
  have h: "\<not> IsZero (heldType (TInt KInt)) (heldValue (TInt KInt) (VInt 3))"
    by (simp add: heldValue_def heldType_def isPtrKind_def)
  have z: "IsZero (heldType (TFloat 64)) (heldValue (TFloat 64) (VFloat (2 ^ 63)))"
    by (simp add: heldValue_def heldType_def isPtrKind_def)
  have p: "isPtrKind (TPtr TString) \<and> underlying (ptrElem (TPtr TString)) = TString \<and>
      \<not> hasHook decimalLib (ptrElem (TPtr TString))"
    by (simp add: isPtrKind_def ptrElem_def hasHook_def decimalLib_def)
  from default_mode_skips_nonzero_held_value [of "TInt KInt" "VInt 3" decimalLib "''9''"] h
  have a: "processField decimalLib True ''9'' (TInt KInt) (VInt 3) = (None, VInt 3)" by blast
  from default_mode_skips_nonzero_held_value
    [of "TFloat 64" "VFloat (2 ^ 63)" decimalLib "''1.5''"] z
  have b: "processField decimalLib True ''1.5'' (TFloat 64) (VFloat (2 ^ 63))
     = processField decimalLib False ''1.5'' (TFloat 64) (VFloat (2 ^ 63))" by blast
  from default_mode_skips_nonzero_held_value [of "TPtr TString" _ decimalLib "''x''"] p
  have c: "processField decimalLib True ''x'' (TPtr TString) (VPtr (Some (VString [])))
     = (None, VPtr (Some (VString ''x'')))" by blast
  from h a z b c show ?thesis by (intro conjI)
qed

section \<open>Evaluating the model\<close>

lemmas string_defs = toRunes_def runeOf_def runeLen.simps isASCII_def ToUpper_def toUpperRune_def
  toUpperChar_def TrimSpace_def IsSpace_def camelSplit_def charClass_def IsLower_def IsUpper_def
  IsDigit_def lowers_def uppers_def digits_def slice_def SplitN2_def HasPrefix_def
  TrimPrefix_def IndexByte_def

lemmas model_defs = Parse_def extractFields.simps drill.simps processField.simps parseTag_def
  string_defs isPtrKind_def ptrElem_def pointee_def fieldsOf_def
  valuesOf_def isStructKind_def hasHook_def decimalLib_def decimal_def wrapInt_def
  wrapUint_def newEnv_def envValue_def bindField_def requiredError_def specifiedEnvNames_def
  under_def noOptions_def isDuration_def Let_def

section \<open>Directives and invalid destinations\<close>

lemma parseTagParts_missing:
  "list_ex (\<lambda>part. CHR '':'' \<in> set part \<and> clauseValue lib part = []) parts \<Longrightarrow>
   \<exists>err. parseTagParts lib parts f = Inl err"
proof (induction parts arbitrary: f)
  case Nil
  then show ?case by simp
next
  case (Cons part parts)
  show ?case
  proof (cases "CHR '':'' \<in> set part")
    case False
    with Cons.prems have "list_ex (\<lambda>part. CHR '':'' \<in> set part \<and> clauseValue lib part = []) parts"
      by simp
    from Cons.IH [OF this] False show ?thesis by (simp add: SplitN2_def)
  next
    case True
    show ?thesis
    proof (cases "clauseValue lib part = []")
      case True
      with \<open>CHR '':'' \<in> set part\<close> show ?thesis
        by (simp add: SplitN2_def clauseValue_def)
    next
      case False
      with Cons.prems have "list_ex (\<lambda>part. CHR '':'' \<in> set part \<and> clauseValue lib part = []) parts"
        by simp
      from Cons.IH [OF this] False True show ?thesis
        by (simp add: SplitN2_def clauseValue_def Let_def)
    qed
  qed
qed

lemma parseTagParts_keeps:
  "parseTagParts lib parts f = Inr g \<Longrightarrow>
   (Required f \<or> ''required'' \<in> set parts \<longrightarrow> Required g) \<and>
   (DefaultVal f \<noteq> [] \<or>
    list_ex (\<lambda>part. CHR '':'' \<in> set part \<and> takeWhile (\<lambda>c. c \<noteq> CHR '':'') part = ''default'') parts
      \<longrightarrow> DefaultVal g \<noteq> [])"
proof (induction parts arbitrary: f)
  case Nil
  then show ?case by simp
next
  case (Cons part parts)
  show ?case
  proof (cases "CHR '':'' \<in> set part")
    case False
    then have ne: "part = ''required'' \<longrightarrow> True" by simp
    from False Cons.prems
    have "parseTagParts lib parts (if part = ''required'' then f\<lparr>Required := True\<rparr> else f) = Inr g"
      by (simp add: SplitN2_def)
    from Cons.IH [OF this] False show ?thesis by (auto split: if_splits)
  next
    case True
    then have nr: "part \<noteq> ''required''" by auto
    from True Cons.prems have v: "clauseValue lib part \<noteq> []"
      by (auto simp: SplitN2_def clauseValue_def Let_def split: if_splits)
    let ?p = "takeWhile (\<lambda>c. c \<noteq> CHR '':'') part"
    let ?f = "(if ?p = ''default'' then f\<lparr>DefaultVal := clauseValue lib part\<rparr>
                   else if ?p = ''env'' then f\<lparr>EnvName := clauseValue lib part\<rparr>
                   else if ?p = ''help'' then f\<lparr>Help := clauseValue lib part\<rparr>
                   else f)"
    from True Cons.prems v have "parseTagParts lib parts ?f = Inr g"
      by (auto simp: SplitN2_def clauseValue_def Let_def split: if_splits)
    from Cons.IH [OF this] v nr show ?thesis by (auto split: if_splits)
  qed
qed

lemma parseTag_fails:
  assumes "clauseMissingValue lib tag \<or> requiredWithDefault tag"
  shows "\<exists>err. parseTag lib tag = Inl err"
proof -
  have ne: "tag \<noteq> []" using assms
    by (auto simp: clauseMissingValue_def requiredWithDefault_def)
  show ?thesis
  proof (cases "parseTagParts lib (Split tag CHR '','') noOptions")
    case (Inl e)
    with ne show ?thesis by (simp add: parseTag_def)
  next
    case (Inr g)
    have "\<not> clauseMissingValue lib tag"
    proof
      assume "clauseMissingValue lib tag"
      then obtain e where "parseTagParts lib (Split tag CHR '','') noOptions = Inl (e::error)"
        unfolding clauseMissingValue_def using parseTagParts_missing by blast
      with Inr show False by simp
    qed
    with assms have "requiredWithDefault tag" by simp
    with parseTagParts_keeps [OF Inr] have "Required g \<and> DefaultVal g \<noteq> []"
      by (simp add: requiredWithDefault_def)
    with Inr ne show ?thesis by (simp add: parseTag_def)
  qed
qed

lemma extractLoop_all_skipped:
  "\<forall>sf\<in>set fs. \<not> fexported sf \<or> ftag sf = ''-'' \<Longrightarrow> extractLoop lib prefix fs vs i = (Inr [], vs)"
proof (induction fs arbitrary: vs i)
  case Nil
  then show ?case by simp
next
  case (Cons sf fs)
  show ?case
  proof (cases vs)
    case Nil
    then show ?thesis by simp
  next
    case (Cons f vs')
    with Cons.prems Cons.IH [of vs' "Suc i"] show ?thesis by auto
  qed
qed

lemma extractLoop_single_tag:
  assumes "fexported sf" "ftag sf \<noteq> ''-''" "parseTag lib (ftag sf) = Inl e0"
  shows "\<exists>err. fst (extractLoop lib p [sf] [f] i) = Inl err"
  using assms by simp

lemma extractLoop_single_inner:
  assumes sf: "fexported sf" "ftag sf \<noteq> ''-''"
    and dr: "drill (ftype sf) f = (t, d, f1)" "isStructKind t" "\<not> hasHook lib t"
    and inner: "fieldsOf t = Some fs'" "valuesOf (getAt f1 (replicate d PElem)) = Some vs'"
    and fails: "\<And>q. \<exists>err. fst (extractLoop lib q fs' vs' 0) = Inl err"
  shows "\<exists>err. fst (extractLoop lib p [sf] [f] i) = Inl err"
proof (cases "parseTag lib (ftag sf)")
  case (Inl e0)
  with sf show ?thesis by simp
next
  case (Inr opts)
  let ?ip = "if fanon sf then p else p @ camelSplit lib (fname sf)"
  from fails [of ?ip] obtain err w where l: "extractLoop lib ?ip fs' vs' 0 = (Inl err, w)"
    by (cases "extractLoop lib ?ip fs' vs' 0") auto
  have "extractFields lib ?ip (TPtr t) (VPtr (Some (getAt f1 (replicate d PElem))))
          = (Inl err, VPtr (Some (VStruct w)))"
    using inner l
    by (simp add: extractFields.simps(1) isPtrKind_def ptrElem_def pointee_def)
  with sf dr Inr show ?thesis by (simp add: Let_def)
qed

lemma extractLoop_fails_at:
  assumes "j < length fs" "j < length vs"
    and "\<And>p i. \<exists>err. fst (extractLoop lib p [fs ! j] [vs ! j] i) = Inl err"
  shows "\<exists>err. fst (extractLoop lib prefix fs vs i) = Inl err"
  using assms
proof (induction fs arbitrary: vs i j)
  case Nil
  then show ?case by simp
next
  case (Cons g fs)
  then obtain f vs' where vs: "vs = f # vs'" by (cases vs) auto
  show ?case
  proof (cases j)
    case 0
    from Cons.prems(3) [of prefix i] 0 vs
    obtain err where single: "fst (extractLoop lib prefix [g] [f] i) = Inl err" by auto
    show ?thesis
    proof (cases "\<not> fexported g \<or> ftag g = ''-''")
      case True
      with single show ?thesis by auto
    next
      case False
      show ?thesis
      proof (cases "parseTag lib (ftag g)")
        case (Inl e0)
        with False vs show ?thesis by simp
      next
        case (Inr opts)
        obtain t d f1 where dr: "drill (ftype g) f = (t, d, f1)"
          by (cases "drill (ftype g) f") auto
        obtain r w where l: "extractLoop lib prefix fs vs' (Suc i) = (r, w)"
          by (cases "extractLoop lib prefix fs vs' (Suc i)") auto
        show ?thesis
        proof (cases "isStructKind t \<and> \<not> hasHook lib t")
          case leaf: False
          with single False Inr dr show ?thesis by (auto simp: Let_def)
        next
          case True
          let ?ip = "if fanon g then prefix else prefix @ camelSplit lib (fname g)"
          obtain ri q where inner:
            "extractFields lib ?ip (TPtr t) (VPtr (Some (getAt f1 (replicate d PElem)))) = (ri, q)"
            by (cases "extractFields lib ?ip (TPtr t)
                         (VPtr (Some (getAt f1 (replicate d PElem))))") auto
          show ?thesis
          proof (cases ri)
            case (Inl e1)
            with inner True False Inr dr vs show ?thesis by (simp add: Let_def)
          next
            case (Inr innerFields)
            with single inner True False \<open>parseTag lib (ftag g) = Inr opts\<close> dr
            show ?thesis by (simp add: Let_def)
          qed
        qed
      qed
    qed
  next
    case (Suc j')
    with Cons.prems vs have "j' < length fs" "j' < length vs'"
      and "\<And>p i. \<exists>err. fst (extractLoop lib p [fs ! j'] [vs' ! j'] i) = Inl err"
      by auto
    from Cons.IH [OF this]
    obtain err where r: "fst (extractLoop lib prefix fs vs' (Suc i)) = Inl err" by blast
    then obtain w where r2: "extractLoop lib prefix fs vs' (Suc i) = (Inl err, w)"
      by (cases "extractLoop lib prefix fs vs' (Suc i)") auto
    show ?thesis unfolding vs
      by (simp add: r2 Let_def split: sum.splits prod.splits)
  qed
qed

lemma faulty_extractLoop:
  "faulty lib fs vs \<Longrightarrow> \<exists>err. fst (extractLoop lib prefix fs vs i) = Inl err"
proof (induction arbitrary: prefix i rule: faulty.induct)
  case (here j fs vs)
  from parseTag_fails [OF here(4)] obtain e0 where e0: "parseTag lib (ftag (fs ! j)) = Inl e0"
    by blast
  have dash: "ftag (fs ! j) \<noteq> ''-''"
    using here(4) by (auto simp: clauseMissingValue_def requiredWithDefault_def)
  from extractLoop_single_tag [OF here(3) dash e0]
  have "\<And>p i. \<exists>err. fst (extractLoop lib p [fs ! j] [vs ! j] i) = Inl err" .
  from extractLoop_fails_at [OF here(1) here(2) this] show ?case .
next
  case (inside j fs vs t d f1 fs' vs')
  have "\<And>q. \<exists>err. fst (extractLoop lib q fs' vs' 0) = Inl err" by (rule inside.IH)
  from extractLoop_single_inner [OF inside(3) inside(4) inside(5) inside(6) inside(7) inside(8)
      inside(9) this]
  have "\<And>p i. \<exists>err. fst (extractLoop lib p [fs ! j] [vs ! j] i) = Inl err" .
  from extractLoop_fails_at [OF inside(1) inside(2) this] show ?case .
qed

text \<open>
  Claim C7. \<open>parseTag\<close> fails on a directive with a \<open>key:\<close> clause whose value is
  empty and on one that declares both \<open>required\<close> and a default. When a settable field of
  the struct, or of a struct nested in it at any depth that extraction goes into, has
  such a directive, \<open>extractFields\<close> fails, and \<open>Parse\<close> returns an error with the
  destination as \<open>extractFields\<close> left it: the loop that assigns defaults and environment
  values is never entered, and the outcome is the same as with an empty environment and
  no prefix.
\<close>

theorem tag_error_aborts_Parse:
  assumes bad: "faulty lib fs vs"
    and ty: "isPtrKind ty" "fieldsOf (ptrElem ty) = Some fs"
  shows "(clauseMissingValue lib tag \<or> requiredWithDefault tag \<longrightarrow>
            (\<exists>err. parseTag lib tag = Inl err)) \<and>
         (\<exists>err. fst (extractFields lib prefix ty (VPtr (Some (VStruct vs)))) = Inl err) \<and>
         (\<exists>err. Parse lib environ pfx ty (VPtr (Some (VStruct vs))) =
                  (Some err, snd (extractFields lib [] ty (VPtr (Some (VStruct vs)))))) \<and>
         Parse lib environ pfx ty (VPtr (Some (VStruct vs))) =
           Parse lib [] [] ty (VPtr (Some (VStruct vs)))"
proof -
  have tg: "clauseMissingValue lib tag \<or> requiredWithDefault tag \<longrightarrow>
            (\<exists>err. parseTag lib tag = Inl err)"
    using parseTag_fails by blast
  have ex: "\<exists>err. fst (extractFields lib p ty (VPtr (Some (VStruct vs)))) = Inl err" for p
  proof -
    from faulty_extractLoop [OF bad]
    obtain err where "fst (extractLoop lib p fs vs 0) = Inl err" by blast
    with ty show ?thesis
      by (cases "extractLoop lib p fs vs 0")
        (simp add: extractFields.simps(1) pointee_def valuesOf_def)
  qed
  from ex [of "[]"] obtain err where
    "fst (extractFields lib [] ty (VPtr (Some (VStruct vs)))) = Inl err" by blast
  then have "Parse lib en px ty (VPtr (Some (VStruct vs))) =
               (Some err, snd (extractFields lib [] ty (VPtr (Some (VStruct vs)))))" for en px
    by (cases "extractFields lib [] ty (VPtr (Some (VStruct vs)))") (simp add: Parse_def)
  from this [of environ pfx] this [of "[]" "[]"] tg ex [of prefix] show ?thesis by auto
qed

text \<open>
  The theorem at the struct of the repository's test \<open>tag-missing-value\<close>, with an
  environment entry for the field, where the struct is untouched; and at a struct whose
  second field is a nil pointer to a struct with a field that is both required and
  defaulted, with an environment entry for the first field, which has a default too: the
  pointer has been set by the extraction, and the first field is still 0.
\<close>

theorem tag_error_aborts_Parse_witness:
  "clauseMissingValue decimalLib ''default:'' \<and>
   (\<exists>err. Parse decimalLib [(''TEST_TEST_INT'', ''7'')] ''test''
      (TPtr (TStruct [SField ''TestInt'' ''default:'' True False (TInt KInt),
                      SField ''TestString'' [] True False TString,
                      SField ''TestBool'' [] True False TBool]))
      (VPtr (Some (VStruct [VInt 0, VString [], VBool False])))
    = (Some err, VPtr (Some (VStruct [VInt 0, VString [], VBool False])))) \<and>
   requiredWithDefault ''required,default:x'' \<and>
   (\<exists>err. Parse decimalLib [(''TEST_PORT'', ''9'')] ''test''
      (TPtr (TStruct [SField ''Port'' ''default:80'' True False (TInt KInt),
                      SField ''DB'' [] True False
                        (TPtr (TStruct [SField ''Host'' ''required,default:x'' True False
                                          TString]))]))
      (VPtr (Some (VStruct [VInt 0, VPtr None])))
    = (Some err, VPtr (Some (VStruct [VInt 0, VPtr (Some (VStruct [VString []]))]))))"
proof -
  let ?sf = "SField ''TestInt'' ''default:'' True False (TInt KInt)"
  let ?fs = "[?sf, SField ''TestString'' [] True False TString,
              SField ''TestBool'' [] True False TBool]"
  let ?vs = "[VInt 0, VString [], VBool False]"
  let ?in = "[SField ''Host'' ''required,default:x'' True False TString]"
  let ?gs = "[SField ''Port'' ''default:80'' True False (TInt KInt),
              SField ''DB'' [] True False (TPtr (TStruct ?in))]"
  let ?ws = "[VInt 0, VPtr None]"
  have cmv: "clauseMissingValue decimalLib ''default:''"
    by (simp add: clauseMissingValue_def clauseValue_def TrimSpace_def)
  have rwd: "requiredWithDefault ''required,default:x''"
    by (simp add: requiredWithDefault_def)
  have f1: "faulty decimalLib ?fs ?vs"
    by (rule faulty.here [where j = 0]) (simp_all add: cmv)
  have "faulty decimalLib ?in [VString []]"
    by (rule faulty.here [where j = 0]) (simp_all add: rwd)
  then have f2: "faulty decimalLib ?gs ?ws"
    by (rule faulty.inside [where j = 1 and t = "TStruct ?in" and d = 1
          and ?f1.0 = "VPtr (Some (VStruct [VString []]))", rotated -1])
       (simp_all add: drill.simps isPtrKind_def ptrElem_def pointee_def isStructKind_def
          fieldsOf_def valuesOf_def hasHook_def decimalLib_def)
  have ex1: "snd (extractFields decimalLib [] (TPtr (TStruct ?fs)) (VPtr (Some (VStruct ?vs))))
            = VPtr (Some (VStruct ?vs))"
    by (simp add: model_defs)
  have ex2: "snd (extractFields decimalLib [] (TPtr (TStruct ?gs)) (VPtr (Some (VStruct ?ws))))
            = VPtr (Some (VStruct [VInt 0, VPtr (Some (VStruct [VString []]))]))"
    by (simp add: model_defs)
  have h1: "isPtrKind (TPtr (TStruct ?fs))" "fieldsOf (ptrElem (TPtr (TStruct ?fs))) = Some ?fs"
    by (simp_all add: isPtrKind_def ptrElem_def fieldsOf_def)
  have h2: "isPtrKind (TPtr (TStruct ?gs))" "fieldsOf (ptrElem (TPtr (TStruct ?gs))) = Some ?gs"
    by (simp_all add: isPtrKind_def ptrElem_def fieldsOf_def)
  from tag_error_aborts_Parse [OF f1 h1, of "[]" "[]" "[(''TEST_TEST_INT'', ''7'')]" "''test''"]
  have a: "\<exists>err. Parse decimalLib [(''TEST_TEST_INT'', ''7'')] ''test'' (TPtr (TStruct ?fs))
          (VPtr (Some (VStruct ?vs)))
        = (Some err, snd (extractFields decimalLib [] (TPtr (TStruct ?fs))
                  (VPtr (Some (VStruct ?vs)))))"
    by blast
  from tag_error_aborts_Parse [OF f2 h2, of "[]" "[]" "[(''TEST_PORT'', ''9'')]" "''test''"]
  have b: "\<exists>err. Parse decimalLib [(''TEST_PORT'', ''9'')] ''test'' (TPtr (TStruct ?gs))
          (VPtr (Some (VStruct ?ws)))
        = (Some err, snd (extractFields decimalLib [] (TPtr (TStruct ?gs))
                  (VPtr (Some (VStruct ?ws)))))"
    by blast
  from a b cmv rwd show ?thesis by (simp only: ex1 ex2)
qed

text \<open>
  Claim C8. When the destination is not a pointer, is a nil pointer or points to
  something that is not a struct, \<open>Parse\<close> returns \<open>ErrInvalidStruct\<close> and the destination
  is unchanged. When \<open>extractFields\<close> finds no descriptor, \<open>Parse\<close> returns the error
  \<open>no fields identified in config struct\<close>; this is so, with the struct unchanged, when
  every field is unexported or tagged \<open>-\<close>.
\<close>

theorem Parse_invalid_struct_or_no_fields:
  "(\<not> isPtrKind ty \<or> pointee cfg = None \<or> fieldsOf (ptrElem ty) = None \<longrightarrow>
      Parse lib environ prefix ty cfg = (Some ErrInvalidStruct, cfg)) \<and>
   (extractFields lib [] ty cfg = (Inr [], cfg') \<longrightarrow>
      Parse lib environ prefix ty cfg =
        (Some (Errorf ''no fields identified in config struct''), cfg')) \<and>
   (isPtrKind ty \<and> fieldsOf (ptrElem ty) = Some fs \<and>
    (\<forall>sf\<in>set fs. \<not> fexported sf \<or> ftag sf = ''-'') \<longrightarrow>
      Parse lib environ prefix ty (VPtr (Some (VStruct vs))) =
        (Some (Errorf ''no fields identified in config struct''), VPtr (Some (VStruct vs))))"
proof (intro conjI impI)
  assume "\<not> isPtrKind ty \<or> pointee cfg = None \<or> fieldsOf (ptrElem ty) = None"
  then have "extractFields lib [] ty cfg = (Inl ErrInvalidStruct, cfg)"
    by (auto simp: extractFields.simps(1) split: option.splits)
  then show "Parse lib environ prefix ty cfg = (Some ErrInvalidStruct, cfg)"
    by (simp add: Parse_def)
next
  assume "extractFields lib [] ty cfg = (Inr [], cfg')"
  then show "Parse lib environ prefix ty cfg =
        (Some (Errorf ''no fields identified in config struct''), cfg')"
    by (simp add: Parse_def)
next
  assume a: "isPtrKind ty \<and> fieldsOf (ptrElem ty) = Some fs \<and>
    (\<forall>sf\<in>set fs. \<not> fexported sf \<or> ftag sf = ''-'')"
  then have "extractLoop lib [] fs vs 0 = (Inr [], vs)"
    by (simp add: extractLoop_all_skipped)
  with a have "extractFields lib [] ty (VPtr (Some (VStruct vs))) = (Inr [], VPtr (Some (VStruct vs)))"
    by (simp add: extractFields.simps(1) pointee_def valuesOf_def)
  then show "Parse lib environ prefix ty (VPtr (Some (VStruct vs))) =
        (Some (Errorf ''no fields identified in config struct''), VPtr (Some (VStruct vs)))"
    by (simp add: Parse_def)
qed

text \<open>The theorem at the repository's tests \<open>not-by-ref\<close> (a struct passed by value),
  \<open>not-struct-value\<close> (a pointer to a slice) and \<open>struct-missing-fields\<close>.\<close>

theorem Parse_invalid_struct_or_no_fields_witness:
  "Parse decimalLib [] ''test'' (TStruct [SField ''TestInt'' [] True False (TInt KInt)])
      (VStruct [VInt 0]) = (Some ErrInvalidStruct, VStruct [VInt 0]) \<and>
   Parse decimalLib [] ''test'' (TPtr (TSlice TString)) (VPtr (Some (VSlice None)))
     = (Some ErrInvalidStruct, VPtr (Some (VSlice None))) \<and>
   Parse decimalLib [] ''test''
      (TPtr (TStruct [SField ''testInt'' ''required'' False False (TInt KInt),
                      SField ''testString'' [] False False TString]))
      (VPtr (Some (VStruct [VInt 0, VString []])))
     = (Some (Errorf ''no fields identified in config struct''),
        VPtr (Some (VStruct [VInt 0, VString []])))"
proof -
  let ?fs = "[SField ''testInt'' ''required'' False False (TInt KInt),
              SField ''testString'' [] False False TString]"
  from Parse_invalid_struct_or_no_fields
    [of "TStruct [SField ''TestInt'' [] True False (TInt KInt)]" "VStruct [VInt 0]"
        decimalLib "[]" "''test''"]
  have a: "Parse decimalLib [] ''test'' (TStruct [SField ''TestInt'' [] True False (TInt KInt)])
      (VStruct [VInt 0]) = (Some ErrInvalidStruct, VStruct [VInt 0])"
    by (simp add: isPtrKind_def)
  from Parse_invalid_struct_or_no_fields
    [of "TPtr (TSlice TString)" "VPtr (Some (VSlice None))" decimalLib "[]" "''test''"]
  have b: "Parse decimalLib [] ''test'' (TPtr (TSlice TString)) (VPtr (Some (VSlice None)))
     = (Some ErrInvalidStruct, VPtr (Some (VSlice None)))"
    by (simp add: isPtrKind_def ptrElem_def fieldsOf_def)
  from Parse_invalid_struct_or_no_fields
    [of "TPtr (TStruct ?fs)" _ decimalLib "[]" "''test''" _ ?fs "[VInt 0, VString []]"]
  have c: "Parse decimalLib [] ''test'' (TPtr (TStruct ?fs))
      (VPtr (Some (VStruct [VInt 0, VString []])))
     = (Some (Errorf ''no fields identified in config struct''),
        VPtr (Some (VStruct [VInt 0, VString []])))"
    by (simp add: isPtrKind_def ptrElem_def fieldsOf_def)
  from a b c show ?thesis by simp
qed

section \<open>Descriptors and their places\<close>

lemma getAt_append: "getAt v (p @ q) = getAt (getAt v p) q"
proof (induction v p rule: getAt.induct)
  case (1 v)
  then show ?case by simp
next
  case (2 vs i p)
  then show ?case by (cases q) auto
next
  case (3 x p)
  then show ?case by simp
qed (cases q; simp)+

lemma putAt_append: "fits v p \<Longrightarrow> putAt v (p @ q) x = putAt v p (putAt (getAt v p) q x)"
  by (induction v p rule: fits.induct) auto

lemma fits_append: "fits v (p @ q) = (fits v p \<and> fits (getAt v p) q)"
proof (induction v p rule: fits.induct)
  case (1 v)
  then show ?case by simp
next
  case (2 vs i p)
  then show ?case by auto
next
  case (3 x p)
  then show ?case by simp
qed (cases q; simp)+

lemma getAt_putAt: "fits v p \<Longrightarrow> getAt (putAt v p x) p = x"
  by (induction v p rule: fits.induct) auto

lemma fits_putAt: "fits v p \<Longrightarrow> fits (putAt v p x) p"
  by (induction v p rule: fits.induct) auto

lemma putAt_putAt: "fits v p \<Longrightarrow> putAt (putAt v p x) p y = putAt v p y"
  by (induction v p rule: fits.induct) auto

lemma putAt_getAt: "fits v p \<Longrightarrow> putAt v p (getAt v p) = v"
  by (induction v p rule: fits.induct) auto

lemma getAt_field: "getAt (VStruct (pre @ x # vs)) (PField (length pre) # p) = getAt x p"
  by simp

lemma putAt_field:
  "putAt (VStruct (pre @ x # vs)) (PField (length pre) # p) y = VStruct (pre @ putAt x p y # vs)"
  by simp

lemma fits_field: "fits (VStruct (pre @ x # vs)) (PField (length pre) # p) = fits x p"
  by simp

lemma indep_sym: "indep p q = indep q p"
  by (induction p q rule: indep.induct) auto

lemma indep_append: "indep (h @ p) (h @ q) = indep p q"
  by (induction h) auto

lemma getAt_putAt_indep: "indep p q \<Longrightarrow> getAt (putAt v p x) q = getAt v q"
proof (induction v p x arbitrary: q rule: putAt.induct)
  case (1 v new)
  then show ?case by simp
next
  case (2 vs i p new)
  show ?case
  proof (cases q)
    case Nil
    with 2 show ?thesis by simp
  next
    case (Cons a list)
    with 2 show ?thesis by (cases a) (auto simp: nth_list_update)
  qed
next
  case (3 y p new)
  show ?case
  proof (cases q)
    case Nil
    with 3 show ?thesis by simp
  next
    case (Cons a list)
    with 3 show ?thesis by (cases a) auto
  qed
qed simp_all

lemma fits_putAt_indep: "indep p q \<Longrightarrow> fits (putAt v p x) q = fits v q"
proof (induction v p x arbitrary: q rule: putAt.induct)
  case (1 v new)
  then show ?case by simp
next
  case (2 vs i p new)
  show ?case
  proof (cases q)
    case Nil
    with 2 show ?thesis by simp
  next
    case (Cons a list)
    with 2 show ?thesis by (cases a) (auto simp: nth_list_update)
  qed
next
  case (3 y p new)
  show ?case
  proof (cases q)
    case Nil
    with 3 show ?thesis by simp
  next
    case (Cons a list)
    with 3 show ?thesis by (cases a) auto
  qed
qed simp_all

lemma apart_append:
  "apart (xs @ ys) = (apart xs \<and> apart ys \<and> (\<forall>x\<in>set xs. \<forall>y\<in>set ys. indep x y))"
  by (induction xs) auto

lemma apart_map_append: "apart (map (\<lambda>h. p @ h) hs) = apart hs"
  by (induction hs) (auto simp: indep_append)

lemma drill_fits: "drill ty f = (t, d, f1) \<Longrightarrow> fits f1 (replicate d PElem)"
proof (induction ty f arbitrary: t d f1 rule: drill.induct)
  case (1 ty f)
  show ?case
  proof (cases "isPtrKind ty")
    case False
    with "1.prems" show ?thesis by (simp add: drill.simps [of ty f])
  next
    case True
    show ?thesis
    proof (cases "pointee f")
      case (Some x)
      obtain t' d' x' where r: "drill (ptrElem ty) x = (t', d', x')"
        by (cases "drill (ptrElem ty) x") auto
      from "1.IH"(2) [OF True Some r] have "fits x' (replicate d' PElem)" .
      with "1.prems" True Some r show ?thesis by (auto simp: drill.simps [of ty f])
    next
      case None
      show ?thesis
      proof (cases "isStructKind (ptrElem ty)")
        case False
        with "1.prems" True None show ?thesis by (simp add: drill.simps [of ty f])
      next
        case s: True
        obtain t' d' x' where r: "drill (ptrElem ty) (zero (ptrElem ty)) = (t', d', x')"
          by (cases "drill (ptrElem ty) (zero (ptrElem ty))") auto
        from "1.IH"(1) [OF True None _ r] s have "fits x' (replicate d' PElem)" by simp
        with "1.prems" True None s r show ?thesis by (auto simp: drill.simps [of ty f])
      qed
    qed
  qed
qed

lemma under_sel:
  "Name (under p f) = Name f" "EnvKeys (under p f) = EnvKeys f" "FType (under p f) = FType f"
  "Options (under p f) = Options f" "Handle (under p f) = p @ Handle f"
  by (simp_all add: under_def)

lemma envValue_under: "envValue lib env (under p f) = envValue lib env f"
  by (simp add: envValue_def under_sel)

lemma requiredError_under: "requiredError (under p f) = requiredError f"
  by (simp add: requiredError_def under_sel)

lemma bindField_under: "bindField lib env (under p fld) cur = bindField lib env fld cur"
  unfolding bindField_def under_sel envValue_under requiredError_under by (rule refl)

text \<open>
  What \<open>extractFields\<close> makes: descriptors whose places lie in the struct, apart from one
  another, with options that \<open>parseTag\<close> returned, and with the key of the explicit
  name when there is one.
\<close>

lemma extract_inv:
  "extractFields lib q ty target = (Inr flds, cfg') \<Longrightarrow>
   \<exists>root. cfg' = VPtr (Some root) \<and> apart (map Handle flds) \<and>
     (\<forall>f\<in>set flds. fits root (Handle f) \<and> (\<exists>tag. parseTag lib tag = Inr (Options f)) \<and>
        (EnvName (Options f) \<noteq> [] \<longrightarrow> EnvKeys f = Split (EnvName (Options f)) CHR ''_''))"
  "extractLoop lib q fs vs i = (Inr flds, vs') \<Longrightarrow> length pre = i \<Longrightarrow>
   apart (map Handle flds) \<and>
     (\<forall>f\<in>set flds. (\<exists>j rest. Handle f = PField j # rest \<and> i \<le> j) \<and>
        fits (VStruct (pre @ vs')) (Handle f) \<and> (\<exists>tag. parseTag lib tag = Inr (Options f)) \<and>
        (EnvName (Options f) \<noteq> [] \<longrightarrow> EnvKeys f = Split (EnvName (Options f)) CHR ''_''))"
proof (induction lib q ty target and lib q fs vs i arbitrary: flds cfg' and flds vs' pre
    rule: extractFields_extractLoop.induct)
  case (1 lib prefix ty target)
  from "1.prems" have pk: "isPtrKind ty"
    by (auto simp: extractFields.simps [of lib prefix ty target] split: if_splits)
  from "1.prems" pk obtain s where s: "pointee target = Some s"
    by (cases "pointee target") (auto simp: extractFields.simps [of lib prefix ty target])
  from "1.prems" pk s obtain fs where fs: "fieldsOf (ptrElem ty) = Some fs"
    by (cases "fieldsOf (ptrElem ty)") (auto simp: extractFields.simps [of lib prefix ty target])
  from "1.prems" pk s fs obtain vs where vs: "valuesOf s = Some vs"
    by (cases "valuesOf s") (auto simp: extractFields.simps [of lib prefix ty target])
  obtain r w where l: "extractLoop lib prefix fs vs 0 = (r, w)"
    by (cases "extractLoop lib prefix fs vs 0") auto
  with "1.prems" pk s fs vs have r: "r = Inr flds" and c: "cfg' = VPtr (Some (VStruct w))"
    by (auto simp: extractFields.simps [of lib prefix ty target])
  from "1.IH" [OF _ s fs vs l [unfolded r], of "[]"] pk
  have "apart (map Handle flds) \<and>
     (\<forall>f\<in>set flds. (\<exists>j rest. Handle f = PField j # rest \<and> 0 \<le> j) \<and>
        fits (VStruct ([] @ w)) (Handle f) \<and> (\<exists>tag. parseTag lib tag = Inr (Options f)) \<and>
        (EnvName (Options f) \<noteq> [] \<longrightarrow> EnvKeys f = Split (EnvName (Options f)) CHR ''_''))"
    by simp
  with c show ?case by simp
next
  case (2 lib prefix vs i)
  then show ?case by simp
next
  case (3 lib prefix sf fs i)
  then show ?case by simp
next
  case (4 lib prefix sf fs f vs i)
  have len: "length (pre @ [x]) = Suc i" for x using "4.prems"(2) by simp
  have i: "i = length pre" using "4.prems"(2) by simp
  let ?P = "\<lambda>k root fl. apart (map Handle fl) \<and>
     (\<forall>f\<in>set fl. (\<exists>j rest. Handle f = PField j # rest \<and> k \<le> j) \<and>
        fits root (Handle f) \<and> (\<exists>tag. parseTag lib tag = Inr (Options f)) \<and>
        (EnvName (Options f) \<noteq> [] \<longrightarrow> EnvKeys f = Split (EnvName (Options f)) CHR ''_''))"
  show ?case
  proof (cases "\<not> fexported sf \<or> ftag sf = ''-''")
    case True
    obtain r w where l: "extractLoop lib prefix fs vs (Suc i) = (r, w)"
      by (cases "extractLoop lib prefix fs vs (Suc i)") auto
    with True "4.prems"(1) have r: "r = Inr flds" and v: "vs' = f # w" by auto
    from "4.IH"(1) [OF True l [unfolded r] len, of f]
    have "?P (Suc i) (VStruct ((pre @ [f]) @ w)) flds" .
    then have "?P i (VStruct (pre @ f # w)) flds" by (auto intro: Suc_leD)
    with v show ?thesis by simp
  next
    case False
    from False "4.prems"(1) obtain opts where tag: "parseTag lib (ftag sf) = Inr opts"
      by (cases "parseTag lib (ftag sf)") auto
    obtain t d f1 where dr: "drill (ftype sf) f = (t, d, f1)"
      by (cases "drill (ftype sf) f") auto
    let ?here = "replicate d PElem"
    have ft: "fits f1 ?here" using dr by (rule drill_fits)
    obtain r w where l: "extractLoop lib prefix fs vs (Suc i) = (r, w)"
      by (cases "extractLoop lib prefix fs vs (Suc i)") auto
    show ?thesis
    proof (cases "isStructKind t \<and> \<not> hasHook lib t")
      case leaf: False
      let ?fld = "\<lparr>Name = fname sf,
                   EnvKeys = (if EnvName opts \<noteq> [] then Split (EnvName opts) CHR ''_''
                              else prefix @ camelSplit lib (fname sf)),
                   Handle = PField i # ?here, FType = t, Options = opts\<rparr>"
      from "4.prems"(1) False tag dr leaf l
      obtain rest where r: "r = Inr rest" and fl: "flds = ?fld # rest" and v: "vs' = f1 # w"
        by (cases r) (auto simp: Let_def)
      from "4.IH"(4) [OF False tag refl dr [symmetric] refl leaf refl refl l [unfolded r] len,
          of f1]
      have R: "?P (Suc i) (VStruct ((pre @ [f1]) @ w)) rest" .
      then have R': "?P i (VStruct (pre @ f1 # w)) rest" by (auto intro: Suc_leD)
      have a: "\<forall>h'\<in>set (map Handle rest). indep (PField i # ?here) h'"
      proof
        fix h' assume "h' \<in> set (map Handle rest)"
        then obtain g where "g \<in> set rest" "h' = Handle g" by auto
        with R obtain j rs where "h' = PField j # rs" "Suc i \<le> j" by blast
        then show "indep (PField i # ?here) h'" by simp
      qed
      have b: "fits (VStruct (pre @ f1 # w)) (PField i # ?here)"
        unfolding i fits_field by (rule ft)
      have c: "\<exists>tag. parseTag lib tag = Inr opts" using tag by blast
      from a b c R' have "?P i (VStruct (pre @ f1 # w)) (?fld # rest)" by simp
      with fl v show ?thesis by simp
    next
      case True
      let ?ip = "if fanon sf then prefix else prefix @ camelSplit lib (fname sf)"
      obtain ri p where inner:
        "extractFields lib ?ip (TPtr t) (VPtr (Some (getAt f1 ?here))) = (ri, p)"
        by (cases "extractFields lib ?ip (TPtr t) (VPtr (Some (getAt f1 ?here)))") auto
      let ?f2 = "case pointee p of None \<Rightarrow> f1 | Some x \<Rightarrow> putAt f1 ?here x"
      from "4.prems"(1) False tag dr True inner l
      obtain innerFields others where ri: "ri = Inr innerFields" and r: "r = Inr others"
        and fl: "flds = map (under (PField i # ?here)) innerFields @ others"
        and v: "vs' = ?f2 # w"
        by (auto simp: Let_def split: sum.splits)
      from "4.IH"(2) [OF False tag refl dr [symmetric] refl True refl refl inner [unfolded ri]]
      obtain rootin where p: "p = VPtr (Some rootin)"
        and ain: "apart (map Handle innerFields)"
        and fin: "\<forall>f\<in>set innerFields. fits rootin (Handle f) \<and>
            (\<exists>tag. parseTag lib tag = Inr (Options f)) \<and>
            (EnvName (Options f) \<noteq> [] \<longrightarrow> EnvKeys f = Split (EnvName (Options f)) CHR ''_'')"
        by blast
      have f2: "?f2 = putAt f1 ?here rootin" using p by (simp add: pointee_def)
      from "4.IH"(3) [OF False tag refl dr [symmetric] refl True refl refl inner [symmetric] ri
          l [unfolded r] len, of ?f2]
      have R: "?P (Suc i) (VStruct ((pre @ [?f2]) @ w)) others" .
      then have R': "?P i (VStruct (pre @ ?f2 # w)) others" by (auto intro: Suc_leD)
      let ?U = "map (under (PField i # ?here)) innerFields"
      have hU: "map Handle ?U = map (\<lambda>h. (PField i # ?here) @ h) (map Handle innerFields)"
        by (simp add: under_def)
      have aU: "apart (map Handle ?U)" unfolding hU apart_map_append by (rule ain)
      have pU: "\<forall>f\<in>set ?U. (\<exists>j rest. Handle f = PField j # rest \<and> i \<le> j) \<and>
          fits (VStruct (pre @ ?f2 # w)) (Handle f) \<and>
          (\<exists>tag. parseTag lib tag = Inr (Options f)) \<and>
          (EnvName (Options f) \<noteq> [] \<longrightarrow> EnvKeys f = Split (EnvName (Options f)) CHR ''_'')"
      proof
        fix g assume "g \<in> set ?U"
        then obtain g0 where g0: "g0 \<in> set innerFields" "g = under (PField i # ?here) g0" by auto
        from fin g0(1) have fg: "fits rootin (Handle g0)"
          and tg: "\<exists>tag. parseTag lib tag = Inr (Options g0)"
          and eg: "EnvName (Options g0) \<noteq> [] \<longrightarrow>
                     EnvKeys g0 = Split (EnvName (Options g0)) CHR ''_''"
          by blast+
        have "fits ?f2 (?here @ Handle g0)"
          unfolding f2 fits_append using ft fg by (simp add: fits_putAt getAt_putAt)
        then have "fits (VStruct (pre @ ?f2 # w)) (PField i # ?here @ Handle g0)"
          unfolding i fits_field .
        with tg eg show "(\<exists>j rest. Handle g = PField j # rest \<and> i \<le> j) \<and>
          fits (VStruct (pre @ ?f2 # w)) (Handle g) \<and>
          (\<exists>tag. parseTag lib tag = Inr (Options g)) \<and>
          (EnvName (Options g) \<noteq> [] \<longrightarrow> EnvKeys g = Split (EnvName (Options g)) CHR ''_'')"
          unfolding g0(2) under_sel by simp
      qed
      have cross: "\<forall>x\<in>set (map Handle ?U). \<forall>y\<in>set (map Handle others). indep x y"
      proof (intro ballI)
        fix x y assume "x \<in> set (map Handle ?U)" "y \<in> set (map Handle others)"
        then obtain g where "g \<in> set others" "y = Handle g"
          and x: "\<exists>rs. x = PField i # rs" by (auto simp: under_def)
        with R obtain j rs where "y = PField j # rs" "Suc i \<le> j" by blast
        with x show "indep x y" by auto
      qed
      from aU pU cross R' have "?P i (VStruct (pre @ ?f2 # w)) (?U @ others)"
        by (simp only: map_append apart_append set_append) blast
      with fl v show ?thesis by simp
    qed
  qed
qed

lemma processFields_frame:
  "\<forall>f\<in>set fl. indep (Handle f) h \<Longrightarrow>
   getAt (snd (processFields lib env fl r)) h = getAt r h"
proof (induction fl arbitrary: r)
  case Nil
  then show ?case by simp
next
  case (Cons f fl)
  obtain e x where b: "bindField lib env f (getAt r (Handle f)) = (e, x)"
    by (cases "bindField lib env f (getAt r (Handle f))") auto
  from Cons.prems have i: "indep (Handle f) h" and rest: "\<forall>f\<in>set fl. indep (Handle f) h"
    by simp_all
  show ?case
  proof (cases e)
    case None
    with b Cons.IH [OF rest, of "putAt r (Handle f) x"] i show ?thesis
      by (simp add: getAt_putAt_indep)
  next
    case (Some err)
    with b i show ?thesis by (simp add: getAt_putAt_indep)
  qed
qed

lemma processFields_field:
  "apart (map Handle flds) \<Longrightarrow> \<forall>f\<in>set flds. fits root (Handle f) \<Longrightarrow>
   processFields lib env flds root = (None, out) \<Longrightarrow> fld \<in> set flds \<Longrightarrow>
   bindField lib env fld (getAt root (Handle fld)) = (None, getAt out (Handle fld))"
proof (induction flds arbitrary: root)
  case Nil
  then show ?case by simp
next
  case (Cons f flds)
  obtain e x where b: "bindField lib env f (getAt root (Handle f)) = (e, x)"
    by (cases "bindField lib env f (getAt root (Handle f))") auto
  with Cons.prems(3) have e: "e = None"
    and run: "processFields lib env flds (putAt root (Handle f) x) = (None, out)"
    by (cases e; simp)+
  from Cons.prems(1) have ap: "apart (map Handle flds)"
    and ind: "\<forall>g\<in>set flds. indep (Handle f) (Handle g)" by simp_all
  show ?case
  proof (cases "fld = f")
    case True
    from ind have "\<forall>g\<in>set flds. indep (Handle g) (Handle f)" by (simp add: indep_sym)
    from processFields_frame [OF this, of lib env "putAt root (Handle f) x"] run
    have "getAt out (Handle f) = getAt (putAt root (Handle f) x) (Handle f)" by simp
    also have "\<dots> = x" using Cons.prems(2) by (simp add: getAt_putAt)
    finally show ?thesis using b e True by simp
  next
    case False
    with Cons.prems(4) have m: "fld \<in> set flds" by simp
    have fr: "\<forall>g\<in>set flds. fits (putAt root (Handle f) x) (Handle g)"
      using Cons.prems(2) ind by (simp add: fits_putAt_indep)
    from Cons.IH [OF ap fr run m] ind m show ?thesis by (simp add: getAt_putAt_indep)
  qed
qed

lemma Parse_unfold:
  assumes "extractFields lib [] ty cfg = (Inr flds, VPtr (Some root))" "flds \<noteq> []"
  shows "Parse lib environ prefix ty cfg =
           (case processFields lib (newEnv lib prefix (specifiedEnvNames flds) environ) flds root of
              (e, r) \<Rightarrow> (e, VPtr (Some r)))"
  using assms by (simp add: Parse_def pointee_def)

lemma Parse_field:
  assumes ex: "extractFields lib [] ty cfg = (Inr flds, VPtr (Some root))"
    and mem: "fld \<in> set flds"
    and ok: "Parse lib environ prefix ty cfg = (None, VPtr (Some res))"
  shows "bindField lib (newEnv lib prefix (specifiedEnvNames flds) environ) fld
           (getAt root (Handle fld)) = (None, getAt res (Handle fld))"
proof -
  let ?env = "newEnv lib prefix (specifiedEnvNames flds) environ"
  from mem have ne: "flds \<noteq> []" by auto
  from ok Parse_unfold [OF ex ne, of environ prefix]
  have run: "processFields lib ?env flds root = (None, res)"
    by (cases "processFields lib ?env flds root") simp
  from extract_inv(1) [OF ex] have "apart (map Handle flds)"
    and "\<forall>f\<in>set flds. fits root (Handle f)" by auto
  from processFields_field [OF this run mem] show ?thesis .
qed

lemma processFields_append:
  "processFields lib env (fl1 @ fl2) root =
     (case processFields lib env fl1 root of
        (Some err, r) \<Rightarrow> (Some err, r)
      | (None, r) \<Rightarrow> processFields lib env fl2 r)"
  by (induction fl1 arbitrary: root) (auto split: prod.splits option.splits)


section \<open>Required fields\<close>

lemma processField_plain:
  assumes "\<not> isPtrKind ty" "\<not> hasHook lib ty" "sd \<longrightarrow> IsZero ty cur"
  shows "processField lib sd raw ty cur =
     (case underlying ty of
            TString \<Rightarrow> (None, VString raw)
          | TInt k \<Rightarrow>
              (case (if k = KInt64 \<and> isDuration ty then ParseDuration lib raw
                     else ParseInt lib raw (intBits lib k)) of
                 Inl err \<Rightarrow> (Some err, cur)
               | Inr val \<Rightarrow> (None, VInt (wrapInt (intBits lib k) val)))
          | TUint k \<Rightarrow>
              (case ParseUint lib raw (uintBits lib k) of
                 Inl err \<Rightarrow> (Some err, cur)
               | Inr val \<Rightarrow> (None, VUint (wrapUint (uintBits lib k) val)))
          | TBool \<Rightarrow>
              (case ParseBool lib raw of
                 Inl err \<Rightarrow> (Some err, cur)
               | Inr val \<Rightarrow> (None, VBool val))
          | TFloat w \<Rightarrow>
              (case ParseFloat lib raw w of
                 Inl err \<Rightarrow> (Some err, cur)
               | Inr val \<Rightarrow> (None, VFloat val))
          | TSlice e \<Rightarrow>
              (case mapE (\<lambda>val. processField lib False val e (zero e)) (Split raw CHR '';'') of
                 Inl err \<Rightarrow> (Some err, cur)
               | Inr sl \<Rightarrow> (None, VSlice (Some sl)))
          | TMap kt vt \<Rightarrow>
              (if length (TrimSpace lib raw) \<noteq> 0
               then (case mapPairs (\<lambda>s. processField lib False s kt (zero kt))
                                   (\<lambda>s. processField lib False s vt (zero vt))
                                   (Split raw CHR '';'') [] of
                       Inl err \<Rightarrow> (Some err, cur)
                     | Inr mp \<Rightarrow> (None, VMap (Some mp)))
               else (None, VMap (Some [])))
          | _ \<Rightarrow> (Some (UnsupportedType ty), cur))"
  using assms
  by (subst processField.simps) (auto simp: hasHook_def Let_def split: gtype.splits sum.splits)

lemma processField_string:
  assumes "underlying t = TString" "\<not> hasHook lib t"
  shows "processField lib False raw t cur = (None, VString raw)"
  using assms by (subst processField_plain) (simp_all add: isPtrKind_def)

lemma putAt_getAt_same: "putAt v p (getAt v p) = v"
  by (induction v p rule: getAt.induct) auto

lemma parseTag_required_no_default:
  "parseTag lib tag = Inr opts \<Longrightarrow> Required opts \<Longrightarrow> DefaultVal opts = []"
  by (auto simp: parseTag_def noOptions_def split: if_splits sum.splits)

lemma bindField_missing:
  "DefaultVal (Options fld) = [] \<Longrightarrow> envValue lib env fld = None \<Longrightarrow>
   bindField lib env fld cur =
     (if Required (Options fld) then (Some (requiredError fld), cur) else (None, cur))"
  by (simp add: bindField_def)

lemma bindField_present:
  "DefaultVal (Options fld) = [] \<Longrightarrow> envValue lib env fld = Some v \<Longrightarrow>
   bindField lib env fld cur =
     (case processField lib False v (FType fld) cur of
        (Some err, x) \<Rightarrow> (Some (FieldError (Name fld) (FType fld) v err), x)
      | (None, x) \<Rightarrow> (None, x))"
  by (simp add: bindField_def)

lemma processFields_required_missing:
  "fld \<in> set flds \<Longrightarrow> Required (Options fld) \<Longrightarrow> DefaultVal (Options fld) = [] \<Longrightarrow>
   envValue lib env fld = None \<Longrightarrow> fst (processFields lib env flds root) \<noteq> None"
proof (induction flds arbitrary: root)
  case Nil
  then show ?case by simp
next
  case (Cons f flds)
  show ?case
  proof (cases "f = fld")
    case True
    with Cons.prems show ?thesis by (simp add: bindField_missing)
  next
    case False
    with Cons.prems have m: "fld \<in> set flds" by simp
    obtain e c where b: "bindField lib env f (getAt root (Handle f)) = (e, c)"
      by (cases "bindField lib env f (getAt root (Handle f))") auto
    show ?thesis
    proof (cases e)
      case None
      with b Cons.IH [OF m Cons.prems(2,3,4)] show ?thesis by simp
    next
      case (Some err)
      with b show ?thesis by simp
    qed
  qed
qed

text \<open>
  Claim C2, as stated, fails for a field that is a struct: its \<open>required\<close> is parsed
  and then ignored, because \<open>extractFields\<close> goes into the struct and makes no
  descriptor for the field itself. With an empty environment \<open>Parse\<close> succeeds.
\<close>

theorem required_on_struct_field_is_ignored:
  "parseTag decimalLib ''required'' = Inr (noOptions\<lparr>Required := True\<rparr>) \<and>
   Parse decimalLib [] ''test''
     (TPtr (TStruct [SField ''DB'' ''required'' True False
                       (TStruct [SField ''Host'' [] True False TString])]))
     (VPtr (Some (VStruct [VStruct [VString []]])))
   = (None, VPtr (Some (VStruct [VStruct [VString []]])))"
  by (simp add: model_defs)

text \<open>
  Claim C2, amended. Take a descriptor that \<open>extractFields\<close> made for the destination,
  with \<open>required\<close> set. When the snapshot has no entry for its key, \<open>Parse\<close> fails, and
  if the descriptors before it were bound without error, \<open>Parse\<close> returns the
  required-field error of this field and leaves the field untouched. When the snapshot
  has an entry, whatever its value, \<open>Parse\<close> coerces the value into the field and goes
  on: it fails at this field only with the \<open>FieldError\<close> of a failed coercion; and when
  \<open>Parse\<close> succeeds, the field holds the coercion of the value, which for a string field
  is the value itself, the empty string included.
\<close>

theorem required_gates_presence_only:
  assumes ex: "extractFields lib [] ty cfg = (Inr flds, VPtr (Some root))"
    and fld: "fld \<in> set flds" "Required (Options fld)"
    and env: "env = newEnv lib prefix (specifiedEnvNames flds) environ"
  shows
    "(envValue lib env fld = None \<longrightarrow>
        (\<exists>err. fst (Parse lib environ prefix ty cfg) = Some err) \<and>
        (\<forall>pre post r. flds = pre @ fld # post \<and> processFields lib env pre root = (None, r) \<longrightarrow>
           Parse lib environ prefix ty cfg = (Some (requiredError fld), VPtr (Some r)))) \<and>
     (envValue lib env fld = Some v \<longrightarrow>
        (\<forall>pre post r. flds = pre @ fld # post \<and> processFields lib env pre root = (None, r) \<longrightarrow>
           Parse lib environ prefix ty cfg =
             (case processField lib False v (FType fld) (getAt r (Handle fld)) of
                (Some err, x) \<Rightarrow>
                  (Some (FieldError (Name fld) (FType fld) v err),
                   VPtr (Some (putAt r (Handle fld) x)))
              | (None, x) \<Rightarrow>
                  (case processFields lib env post (putAt r (Handle fld) x) of
                     (e, r') \<Rightarrow> (e, VPtr (Some r'))))) \<and>
        (\<forall>res. Parse lib environ prefix ty cfg = (None, VPtr (Some res)) \<longrightarrow>
           processField lib False v (FType fld) (getAt root (Handle fld))
             = (None, getAt res (Handle fld)) \<and>
           (underlying (FType fld) = TString \<and> \<not> hasHook lib (FType fld) \<longrightarrow>
              getAt res (Handle fld) = VString v)))"
proof -
  from fld(1) have ne: "flds \<noteq> []" by auto
  note P = Parse_unfold [OF ex ne, of environ prefix, folded env]
  from extract_inv(1) [OF ex] fld(1) obtain tag where "parseTag lib tag = Inr (Options fld)"
    by blast
  from parseTag_required_no_default [OF this fld(2)] have d: "DefaultVal (Options fld) = []" .
  have run: "processFields lib env (pre @ fld # post) root =
      (case bindField lib env fld (getAt r (Handle fld)) of
         (Some err, x) \<Rightarrow> (Some err, putAt r (Handle fld) x)
       | (None, x) \<Rightarrow> processFields lib env post (putAt r (Handle fld) x))"
    if "processFields lib env pre root = (None, r)" for pre post r
    using that by (simp add: processFields_append)
  have a1: "\<exists>err. fst (Parse lib environ prefix ty cfg) = Some err"
    if n: "envValue lib env fld = None"
  proof -
    from processFields_required_missing [OF fld(1) fld(2) d n, of root]
    obtain err where "fst (processFields lib env flds root) = Some err" by auto
    then show ?thesis unfolding P by (cases "processFields lib env flds root") auto
  qed
  have a2: "Parse lib environ prefix ty cfg = (Some (requiredError fld), VPtr (Some r))"
    if n: "envValue lib env fld = None"
      and s: "flds = pre @ fld # post \<and> processFields lib env pre root = (None, r)"
    for pre post r
  proof -
    from s have "processFields lib env flds root = (Some (requiredError fld), r)"
      using run [of pre r post] bindField_missing [OF d n, of "getAt r (Handle fld)"] fld(2)
      by (simp add: putAt_getAt_same)
    then show ?thesis unfolding P by simp
  qed
  have b1: "Parse lib environ prefix ty cfg =
             (case processField lib False v (FType fld) (getAt r (Handle fld)) of
                (Some err, x) \<Rightarrow>
                  (Some (FieldError (Name fld) (FType fld) v err),
                   VPtr (Some (putAt r (Handle fld) x)))
              | (None, x) \<Rightarrow>
                  (case processFields lib env post (putAt r (Handle fld) x) of
                     (e, r') \<Rightarrow> (e, VPtr (Some r'))))"
    if p: "envValue lib env fld = Some v"
      and s: "flds = pre @ fld # post \<and> processFields lib env pre root = (None, r)"
    for pre post r
  proof -
    obtain e x where pf: "processField lib False v (FType fld) (getAt r (Handle fld)) = (e, x)"
      by (cases "processField lib False v (FType fld) (getAt r (Handle fld))") auto
    from s have "processFields lib env flds root =
        (case e of Some err \<Rightarrow> (Some (FieldError (Name fld) (FType fld) v err),
                                 putAt r (Handle fld) x)
         | None \<Rightarrow> processFields lib env post (putAt r (Handle fld) x))"
      using run [of pre r post] bindField_present [OF d p, of "getAt r (Handle fld)"] pf
      by (cases e) simp_all
    then show ?thesis unfolding P pf by (cases e) simp_all
  qed
  have b2: "processField lib False v (FType fld) (getAt root (Handle fld))
             = (None, getAt res (Handle fld)) \<and>
           (underlying (FType fld) = TString \<and> \<not> hasHook lib (FType fld) \<longrightarrow>
              getAt res (Handle fld) = VString v)"
    if p: "envValue lib env fld = Some v"
      and ok: "Parse lib environ prefix ty cfg = (None, VPtr (Some res))" for res
  proof -
    from Parse_field [OF ex fld(1) ok, folded env]
    have "bindField lib env fld (getAt root (Handle fld)) = (None, getAt res (Handle fld))" .
    with bindField_present [OF d p, of "getAt root (Handle fld)"]
    have c: "processField lib False v (FType fld) (getAt root (Handle fld))
             = (None, getAt res (Handle fld))"
      by (cases "processField lib False v (FType fld) (getAt root (Handle fld))")
        (auto split: option.splits)
    moreover have "getAt res (Handle fld) = VString v"
      if "underlying (FType fld) = TString \<and> \<not> hasHook lib (FType fld)"
      using that c processField_string [of "FType fld" lib v "getAt root (Handle fld)"] by simp
    ultimately show ?thesis by blast
  qed
  from a1 a2 b1 b2 show ?thesis by blast
qed

text \<open>
  The theorem at the struct of the repository's tests \<open>required-env-integer-zero\<close>,
  \<open>required-env-string-empty\<close> and \<open>required-env-boolean-false\<close>, with all three fields
  required and holding 5, \<open>x\<close> and \<open>true\<close> before: with \<open>TEST_TEST_INT=0\<close>,
  \<open>TEST_TEST_STRING=\<close> and \<open>TEST_TEST_BOOL=false\<close> the three fields are overwritten;
  with \<open>TEST_TEST_INT=7\<close> alone the first field is set and \<open>Parse\<close> fails at the second.
\<close>

theorem required_gates_presence_only_witness:
  "Parse decimalLib
     [(''TEST_TEST_INT'', ''0''), (''TEST_TEST_STRING'', []), (''TEST_TEST_BOOL'', ''false'')]
     ''test''
     (TPtr (TStruct [SField ''TestInt'' ''required'' True False (TInt KInt),
                     SField ''TestString'' ''required'' True False TString,
                     SField ''TestBool'' ''required'' True False TBool]))
     (VPtr (Some (VStruct [VInt 5, VString ''x'', VBool True])))
   = (None, VPtr (Some (VStruct [VInt 0, VString [], VBool False]))) \<and>
   Parse decimalLib [(''TEST_TEST_INT'', ''7'')] ''test''
     (TPtr (TStruct [SField ''TestInt'' ''required'' True False (TInt KInt),
                     SField ''TestString'' ''required'' True False TString,
                     SField ''TestBool'' ''required'' True False TBool]))
     (VPtr (Some (VStruct [VInt 5, VString ''x'', VBool True])))
   = (Some (Errorf ''required field TestString is missing value''),
      VPtr (Some (VStruct [VInt 7, VString ''x'', VBool True])))"
proof -
  let ?ty = "TPtr (TStruct [SField ''TestInt'' ''required'' True False (TInt KInt),
                     SField ''TestString'' ''required'' True False TString,
                     SField ''TestBool'' ''required'' True False TBool])"
  let ?root = "VStruct [VInt 5, VString ''x'', VBool True]"
  let ?i = "\<lparr>Name = ''TestInt'', EnvKeys = [''Test'', ''Int''], Handle = [PField 0],
      FType = TInt KInt, Options = noOptions\<lparr>Required := True\<rparr>\<rparr>"
  let ?s = "\<lparr>Name = ''TestString'', EnvKeys = [''Test'', ''String''], Handle = [PField 1],
      FType = TString, Options = noOptions\<lparr>Required := True\<rparr>\<rparr>"
  let ?b = "\<lparr>Name = ''TestBool'', EnvKeys = [''Test'', ''Bool''], Handle = [PField 2],
      FType = TBool, Options = noOptions\<lparr>Required := True\<rparr>\<rparr>"
  let ?e1 = "[(''TEST_TEST_INT'', ''0''), (''TEST_TEST_STRING'', []),
              (''TEST_TEST_BOOL'', ''false'')]"
  let ?e2 = "[(''TEST_TEST_INT'', ''7'')]"
  let ?env1 = "newEnv decimalLib ''test'' (specifiedEnvNames [?i, ?s, ?b]) ?e1"
  let ?env2 = "newEnv decimalLib ''test'' (specifiedEnvNames [?i, ?s, ?b]) ?e2"
  have ex: "extractFields decimalLib [] ?ty (VPtr (Some ?root))
              = (Inr [?i, ?s, ?b], VPtr (Some ?root))"
    by (simp add: model_defs)
  have m: "?s \<in> set [?i, ?s, ?b]" and r: "Required (Options ?s)" by simp_all
  have v1: "envValue decimalLib ?env1 ?s = Some []"
    and v2: "envValue decimalLib ?env2 ?s = None"
    by (simp_all add: model_defs)
  have sp: "[?i, ?s, ?b] = [?i] @ ?s # [?b]" by simp
  have p1: "processFields decimalLib ?env1 [?i] ?root
              = (None, VStruct [VInt 0, VString ''x'', VBool True])"
    and p2: "processFields decimalLib ?env2 [?i] ?root
              = (None, VStruct [VInt 7, VString ''x'', VBool True])"
    by (simp_all add: model_defs)
  have q1: "processField decimalLib False [] TString
              (getAt (VStruct [VInt 0, VString ''x'', VBool True]) (Handle ?s))
            = (None, VString [])"
    by (simp add: model_defs)
  have q2: "processFields decimalLib ?env1 [?b] (VStruct [VInt 0, VString [], VBool True])
            = (None, VStruct [VInt 0, VString [], VBool False])"
    by (simp add: model_defs)
  from required_gates_presence_only [OF ex m r refl, where v = "[]" and environ = ?e1
      and prefix = "''test''"] v1 sp p1
  have "Parse decimalLib ?e1 ''test'' ?ty (VPtr (Some ?root)) =
      (case processField decimalLib False [] (FType ?s)
              (getAt (VStruct [VInt 0, VString ''x'', VBool True]) (Handle ?s)) of
         (Some err, x) \<Rightarrow>
           (Some (FieldError (Name ?s) (FType ?s) [] err),
            VPtr (Some (putAt (VStruct [VInt 0, VString ''x'', VBool True]) (Handle ?s) x)))
       | (None, x) \<Rightarrow>
           (case processFields decimalLib ?env1 [?b]
                   (putAt (VStruct [VInt 0, VString ''x'', VBool True]) (Handle ?s) x) of
              (e, r') \<Rightarrow> (e, VPtr (Some r'))))"
    by blast
  then have a: "Parse decimalLib ?e1 ''test'' ?ty (VPtr (Some ?root))
      = (None, VPtr (Some (VStruct [VInt 0, VString [], VBool False])))"
    using q1 q2 by simp
  from required_gates_presence_only [OF ex m r refl, where v = "[]" and environ = ?e2
      and prefix = "''test''"] v2 sp p2
  have "Parse decimalLib ?e2 ''test'' ?ty (VPtr (Some ?root)) =
      (Some (requiredError ?s), VPtr (Some (VStruct [VInt 7, VString ''x'', VBool True])))"
    by blast
  then have b: "Parse decimalLib ?e2 ''test'' ?ty (VPtr (Some ?root))
      = (Some (Errorf ''required field TestString is missing value''),
         VPtr (Some (VStruct [VInt 7, VString ''x'', VBool True])))"
    by (simp add: requiredError_def)
  from a b show ?thesis by (rule conjI)
qed

text \<open>
  Claim C4 at the struct of the repository's test \<open>required-env-missing-error-message\<close>,
  with the prefix \<open>test\<close> and an empty environment: the error \<open>Parse\<close> returns names the
  field, and its message holds neither the name of the variable looked for,
  \<open>TEST_TEST_INT\<close>, nor the key \<open>TEST_INT\<close> under which the snapshot is read.
\<close>

theorem required_error_message_lacks_env_key:
  "fst (Parse decimalLib [] ''test''
      (TPtr (TStruct [SField ''TestInt'' ''required'' True False (TInt KInt),
                      SField ''TestString'' [] True False TString,
                      SField ''TestBool'' [] True False TBool]))
      (VPtr (Some (VStruct [VInt 0, VString [], VBool False]))))
   = Some (Errorf ''required field TestInt is missing value'') \<and>
   Contains ''required field TestInt is missing value'' ''TestInt'' \<and>
   \<not> Contains ''required field TestInt is missing value'' ''TEST_TEST_INT'' \<and>
   \<not> Contains ''required field TestInt is missing value'' ''TEST_INT''"
  by (simp add: model_defs)

section \<open>Explicit environment names\<close>











section \<open>Sequences and maps\<close>






















section \<open>Name paths\<close>


lemma utf8Chunks_Nil [simp]: "(utf8Chunks s = []) = (s = [])"
  by (cases s) (simp_all add: Let_def)












lemma liftKeys_simps [simp]:
  "liftKeys p (Inl err, v) = (Inl err, v)"
  "liftKeys p (Inr fl, v) = (Inr (map (addPrefix p) fl), v)"
  by (simp_all add: liftKeys_def)





section \<open>Defaults alone\<close>

lemma zero_underlying: "zero t = zero (underlying t)"
  by (induction t rule: underlying.induct) auto

lemma zero_of_struct: "fieldsOf t = Some fs \<Longrightarrow> zero t = VStruct (map (\<lambda>f. zero (ftype f)) fs)"
  by (subst zero_underlying) (auto simp: fieldsOf_def split: gtype.splits)

lemma zero_of_ptr: "isPtrKind t \<Longrightarrow> zero t = VPtr None"
  by (subst zero_underlying) (auto simp: isPtrKind_def split: gtype.splits)

lemma struct_not_ptr: "isStructKind t \<Longrightarrow> \<not> isPtrKind t"
  by (auto simp: isStructKind_def isPtrKind_def split: gtype.splits)

lemma isStructKind_fieldsOf: "isStructKind t = (fieldsOf t \<noteq> None)"
  by (auto simp: isStructKind_def fieldsOf_def split: gtype.splits)

lemma drill_zero:
  "drill t (zero t) =
     (if isPtrKind t \<and> isStructKind (ptrElem t)
      then (ptrElem t, Suc 0, VPtr (Some (zero (ptrElem t))))
      else (t, 0, zero t))"
proof (cases "isPtrKind t")
  case False
  then show ?thesis by (simp add: drill.simps [of t])
next
  case True
  then have z: "pointee (zero t) = None" by (simp add: zero_of_ptr pointee_def)
  show ?thesis
  proof (cases "isStructKind (ptrElem t)")
    case False
    with True z show ?thesis by (simp add: drill.simps [of t])
  next
    case s: True
    then have "drill (ptrElem t) (zero (ptrElem t)) = (ptrElem t, 0, zero (ptrElem t))"
      by (simp add: drill.simps [of "ptrElem t"] struct_not_ptr)
    with True z s show ?thesis by (simp add: drill.simps [of t])
  qed
qed

lemma quiet_under: "quiet lib env (under p fld) = quiet lib env fld"
  by (simp add: quiet_def under_sel envValue_under)

lemma processFields_under:
  "fits root p \<Longrightarrow>
   processFields lib env (map (under p) fl) root =
     (case processFields lib env fl (getAt root p) of (e, sub) \<Rightarrow> (e, putAt root p sub))"
proof (induction fl arbitrary: root)
  case Nil
  then show ?case by (simp add: putAt_getAt)
next
  case (Cons f fl)
  have h: "Handle (under p f) = p @ Handle f" by (simp add: under_def)
  obtain e x where b: "bindField lib env f (getAt (getAt root p) (Handle f)) = (e, x)"
    by (cases "bindField lib env f (getAt (getAt root p) (Handle f))") auto
  let ?sub = "putAt (getAt root p) (Handle f) x"
  have pr: "putAt root (p @ Handle f) x = putAt root p ?sub"
    using Cons.prems by (rule putAt_append)
  show ?case
  proof (cases e)
    case (Some err)
    with b pr show ?thesis by (simp add: h getAt_append bindField_under)
  next
    case None
    have f': "fits (putAt root p ?sub) p" using Cons.prems by (rule fits_putAt)
    from Cons.IH [OF f'] Cons.prems None b pr show ?thesis
      by (simp add: h getAt_append bindField_under getAt_putAt putAt_putAt)
  qed
qed

lemma bindField_quiet:
  "quiet lib env fld \<Longrightarrow>
   bindField lib env fld (zero (FType fld)) =
     (None, if DefaultVal (Options fld) \<noteq> []
            then snd (processField lib True (DefaultVal (Options fld)) (FType fld) (zero (FType fld)))
            else zero (FType fld))"
  by (auto simp: quiet_def bindField_def split: prod.splits option.splits)

lemma defaults_main:
  "extractFields lib q ty target = (Inr flds, cfg') \<Longrightarrow> ty = TPtr t \<Longrightarrow>
   target = VPtr (Some (zero t)) \<Longrightarrow> \<forall>f\<in>set flds. quiet lib env f \<Longrightarrow>
   \<exists>root. cfg' = VPtr (Some root) \<and> processFields lib env flds root = (None, defaultsOf lib t)"
  "extractLoop lib q fs vs i = (Inr flds, vs') \<Longrightarrow> vs = map (\<lambda>f. zero (ftype f)) fs \<Longrightarrow>
   \<forall>f\<in>set flds. quiet lib env f \<Longrightarrow> length pre = i \<Longrightarrow>
   processFields lib env flds (VStruct (pre @ vs'))
     = (None, VStruct (pre @ map (fieldDefault lib) fs))"
proof (induction lib q ty target and lib q fs vs i arbitrary: flds cfg' t and flds vs' pre
    rule: extractFields_extractLoop.induct)
  case (1 lib prefix ty target)
  have pk: "isPtrKind ty" "ptrElem ty = t" "pointee target = Some (zero t)"
    using "1.prems"(2,3) by (simp_all add: isPtrKind_def ptrElem_def pointee_def)
  from "1.prems"(1) pk obtain fs where fs: "fieldsOf t = Some fs"
    by (cases "fieldsOf t") (auto simp: extractFields.simps [of lib prefix ty target])
  then have z: "zero t = VStruct (map (\<lambda>f. zero (ftype f)) fs)" by (rule zero_of_struct)
  then have vs: "valuesOf (zero t) = Some (map (\<lambda>f. zero (ftype f)) fs)"
    by (simp add: valuesOf_def)
  obtain r w where l: "extractLoop lib prefix fs (map (\<lambda>f. zero (ftype f)) fs) 0 = (r, w)"
    by (cases "extractLoop lib prefix fs (map (\<lambda>f. zero (ftype f)) fs) 0") auto
  with "1.prems"(1) pk fs vs have r: "r = Inr flds" and c: "cfg' = VPtr (Some (VStruct w))"
    by (auto simp: extractFields.simps [of lib prefix ty target])
  from "1.IH" [of "zero t" fs "map (\<lambda>f. zero (ftype f)) fs" flds w "[]"] pk fs vs l r "1.prems"(4)
  have "processFields lib env flds (VStruct w) = (None, VStruct (map (fieldDefault lib) fs))"
    by simp
  with c fs show ?case by (simp add: defaultsOf.simps [of lib t])
next
  case (2 lib prefix vs i)
  then show ?case by simp
next
  case (3 lib prefix sf fs i)
  then show ?case by simp
next
  case (4 lib prefix sf fs f vs i)
  let ?T = "ftype sf"
  from "4.prems"(2) have f: "f = zero ?T" and vs: "vs = map (\<lambda>f. zero (ftype f)) fs" by auto
  have len: "length (pre @ [x]) = Suc i" for x using "4.prems"(4) by simp
  show ?case
  proof (cases "\<not> fexported sf \<or> ftag sf = ''-''")
    case True
    obtain r w where l: "extractLoop lib prefix fs vs (Suc i) = (r, w)"
      by (cases "extractLoop lib prefix fs vs (Suc i)") auto
    with True "4.prems"(1) have r: "r = Inr flds" and v: "vs' = f # w" by auto
    from "4.IH"(1) [OF True l [unfolded r] vs "4.prems"(3) len, of f]
    have "processFields lib env flds (VStruct ((pre @ [f]) @ w))
            = (None, VStruct ((pre @ [f]) @ map (fieldDefault lib) fs))" .
    moreover have "fieldDefault lib sf = f"
      using True f by (simp add: fieldDefault.simps [of lib sf])
    ultimately show ?thesis using v by simp
  next
    case False
    from False "4.prems"(1) obtain opts where tag: "parseTag lib (ftag sf) = Inr opts"
      by (cases "parseTag lib (ftag sf)") auto
    obtain t d f1 where dr: "drill ?T f = (t, d, f1)" by (cases "drill ?T f") auto
    let ?here = "replicate d PElem"
    have shape: "(isPtrKind ?T \<and> isStructKind (ptrElem ?T) \<and> t = ptrElem ?T \<and> d = Suc 0 \<and>
                    f1 = VPtr (Some (zero t))) \<or>
                 (\<not> (isPtrKind ?T \<and> isStructKind (ptrElem ?T)) \<and> t = ?T \<and> d = 0 \<and> f1 = zero t)"
      using dr unfolding f drill_zero by (auto split: if_splits)
    then have g: "getAt f1 ?here = zero t" and ft: "fits f1 ?here"
      and pt: "putAt f1 ?here y = (if d = 0 then y else VPtr (Some y))" for y
      by auto
    obtain r w where l: "extractLoop lib prefix fs vs (Suc i) = (r, w)"
      by (cases "extractLoop lib prefix fs vs (Suc i)") auto
    let ?dflt = "DefaultVal opts"
    let ?leaf = "if ?dflt \<noteq> [] then snd (processField lib True ?dflt t (zero t)) else zero t"
    show ?thesis
    proof (cases "isStructKind t \<and> \<not> hasHook lib t")
      case leaf: False
      let ?fld = "\<lparr>Name = fname sf,
                   EnvKeys = (if EnvName opts \<noteq> [] then Split (EnvName opts) CHR ''_''
                              else prefix @ camelSplit lib (fname sf)),
                   Handle = PField i # ?here, FType = t, Options = opts\<rparr>"
      from "4.prems"(1) False tag dr leaf l
      have r: "r = Inr (tl flds)" and fl: "flds = ?fld # tl flds" and v: "vs' = f1 # w"
        by (auto simp: Let_def split: sum.splits)
      from fl "4.prems"(3) have qf: "quiet lib env ?fld" and qr: "\<forall>f\<in>set (tl flds). quiet lib env f"
        by (metis list.set_intros(1), metis list.set_intros(2))
      from bindField_quiet [OF qf] have b: "bindField lib env ?fld (zero t) = (None, ?leaf)"
        by simp
      have fd: "fieldDefault lib sf = putAt f1 ?here ?leaf"
        using False tag shape leaf
        by (auto simp: fieldDefault.simps [of lib sf] Let_def struct_not_ptr pt)
      from "4.IH"(4) [OF False tag refl dr [symmetric] refl leaf refl refl l [unfolded r] vs qr len,
          of "putAt f1 ?here ?leaf"]
      have rest: "processFields lib env (tl flds) (VStruct ((pre @ [putAt f1 ?here ?leaf]) @ w))
            = (None, VStruct ((pre @ [putAt f1 ?here ?leaf]) @ map (fieldDefault lib) fs))" .
      have i: "i = length pre" using "4.prems"(4) by simp
      have "processFields lib env (?fld # tl flds) (VStruct (pre @ f1 # w))
              = processFields lib env (tl flds) (VStruct (pre @ putAt f1 ?here ?leaf # w))"
        unfolding i by (simp only: processFields.simps Field.simps getAt_field putAt_field g
            b [unfolded i] prod.case option.case)
      with rest fd fl v show ?thesis by simp
    next
      case True
      let ?ip = "if fanon sf then prefix else prefix @ camelSplit lib (fname sf)"
      obtain ri p where inner: "extractFields lib ?ip (TPtr t) (VPtr (Some (getAt f1 ?here))) = (ri, p)"
        by (cases "extractFields lib ?ip (TPtr t) (VPtr (Some (getAt f1 ?here)))") auto
      let ?f2 = "case pointee p of None \<Rightarrow> f1 | Some x \<Rightarrow> putAt f1 ?here x"
      from "4.prems"(1) False tag dr True inner l
      obtain innerFields others where ri: "ri = Inr innerFields" and r: "r = Inr others"
        and fl: "flds = map (under (PField i # ?here)) innerFields @ others"
        and v: "vs' = ?f2 # w"
        by (auto simp: Let_def split: sum.splits)
      from fl "4.prems"(3) have qo: "\<forall>f\<in>set others. quiet lib env f" by auto
      have qi: "\<forall>f\<in>set innerFields. quiet lib env f"
      proof
        fix g assume "g \<in> set innerFields"
        then have "under (PField i # ?here) g \<in> set flds" unfolding fl by simp
        with "4.prems"(3) have "quiet lib env (under (PField i # ?here) g)" by blast
        then show "quiet lib env g" by (simp only: quiet_under)
      qed
      from "4.IH"(2) [OF False tag refl dr [symmetric] refl True refl refl inner [unfolded ri] refl _ qi]
      obtain rootin where p: "p = VPtr (Some rootin)"
        and pin: "processFields lib env innerFields rootin = (None, defaultsOf lib t)"
        using g by auto
      have f2: "?f2 = putAt f1 ?here rootin" using p by (simp add: pointee_def)
      have fd: "fieldDefault lib sf = putAt f1 ?here (defaultsOf lib t)"
        using False tag shape True
        by (auto simp: fieldDefault.simps [of lib sf] Let_def struct_not_ptr pt)
      let ?FD = "putAt f1 ?here (defaultsOf lib t)"
      from "4.IH"(3) [OF False tag refl dr [symmetric] refl True refl refl inner [symmetric] ri
          l [unfolded r] vs qo len, of ?FD]
      have rest: "processFields lib env others (VStruct ((pre @ [?FD]) @ w))
            = (None, VStruct ((pre @ [?FD]) @ map (fieldDefault lib) fs))" .
      have i: "i = length pre" using "4.prems"(4) by simp
      have fit: "fits (VStruct (pre @ ?f2 # w)) (PField i # ?here)"
        unfolding i fits_field f2 using ft by (rule fits_putAt)
      have "processFields lib env (map (under (PField i # ?here)) innerFields) (VStruct (pre @ ?f2 # w))
              = (None, VStruct (pre @ ?FD # w))"
        unfolding processFields_under [OF fit]
        unfolding i getAt_field putAt_field f2
        using ft pin by (simp add: getAt_putAt putAt_putAt)
      with rest fl v fd show ?thesis by (simp add: processFields_append)
    qed
  qed
qed

text \<open>
  Claim C1, as stated, fails in three ways, each at a zero-valued struct whose fields
  declare a default or nothing, with an empty environment: a default that the field's
  type does not accept makes \<open>Parse\<close> fail; an untagged nil pointer to a struct does not
  keep its zero value but is set to a new struct; and a struct without settable field
  makes \<open>Parse\<close> fail.
\<close>

theorem defaults_can_fail_and_pointers_are_allocated:
  "fst (Parse decimalLib [] ''test''
         (TPtr (TStruct [SField ''N'' ''default:abc'' True False (TInt KInt)]))
         (VPtr (Some (VStruct [VInt 0]))))
     = Some (FieldError ''N'' (TInt KInt) ''abc'' (LibError ''strconv.ParseInt'')) \<and>
   Parse decimalLib [] ''test''
     (TPtr (TStruct [SField ''A'' ''default:1'' True False (TInt KInt),
                     SField ''Sub'' [] True False
                       (TPtr (TStruct [SField ''X'' [] True False (TInt KInt)]))]))
     (VPtr (Some (VStruct [VInt 0, VPtr None])))
     = (None, VPtr (Some (VStruct [VInt 1, VPtr (Some (VStruct [VInt 0]))]))) \<and>
   fst (Parse decimalLib [] ''test'' (TPtr (TStruct [])) (VPtr (Some (VStruct []))))
     = Some (Errorf ''no fields identified in config struct'')"
  by (simp add: model_defs)

text \<open>
  Claim C1, amended. Take a destination that is the zero value of a struct type, from
  which \<open>extractFields\<close> gets at least one descriptor, none of them required (each
  directive declares a default or nothing of the kind), with no entry in the snapshot
  for any descriptor's key and with every declared default accepted by the coercion of
  its field's type. Then \<open>Parse\<close> succeeds and leaves the struct described by
  \<open>defaultsOf\<close>: defaulted fields hold their defaults coerced to the field's type,
  fields without default hold their zero values, and nil pointers to structs point to
  structs filled the same way.
\<close>

theorem Parse_defaults_only:
  assumes ex: "extractFields lib [] (TPtr t) (VPtr (Some (zero t))) = (Inr flds, cfg')"
    and ne: "flds \<noteq> []"
    and nr: "\<forall>f\<in>set flds. \<not> Required (Options f)"
    and env: "\<forall>f\<in>set flds. envValue lib (newEnv lib prefix (specifiedEnvNames flds) environ) f = None"
    and ok: "\<forall>f\<in>set flds. DefaultVal (Options f) \<noteq> [] \<longrightarrow>
               fst (processField lib True (DefaultVal (Options f)) (FType f) (zero (FType f)))
                 = None"
  shows "Parse lib environ prefix (TPtr t) (VPtr (Some (zero t)))
           = (None, VPtr (Some (defaultsOf lib t)))"
proof -
  let ?env = "newEnv lib prefix (specifiedEnvNames flds) environ"
  from nr env ok have q: "\<forall>f\<in>set flds. quiet lib ?env f" by (simp add: quiet_def)
  from defaults_main(1) [OF ex refl refl q] obtain root where
    c: "cfg' = VPtr (Some root)"
    and p: "processFields lib ?env flds root = (None, defaultsOf lib t)"
    by blast
  from ex ne c p show ?thesis by (simp add: Parse_def pointee_def)
qed

text \<open>
  The theorem at a struct with a defaulted \<open>int\<close>, an untagged \<open>bool\<close>, a skipped
  string and a nil pointer to a struct with a defaulted string; the environment holds
  only an unrelated variable.
\<close>

theorem Parse_defaults_only_witness:
  "Parse decimalLib [(''HOME'', ''/root'')] ''test''
     (TPtr (TStruct [SField ''AnInt'' ''default:9'' True False (TInt KInt),
                     SField ''Bool'' [] True False TBool,
                     SField ''Skip'' ''-'' True False TString,
                     SField ''IP'' [] True False
                       (TPtr (TStruct [SField ''Name'' ''default:localhost'' True False TString]))]))
     (VPtr (Some (VStruct [VInt 0, VBool False, VString [], VPtr None])))
   = (None, VPtr (Some (VStruct [VInt 9, VBool False, VString [],
                                 VPtr (Some (VStruct [VString ''localhost'']))])))"
proof -
  let ?ip = "TStruct [SField ''Name'' ''default:localhost'' True False TString]"
  let ?t = "TStruct [SField ''AnInt'' ''default:9'' True False (TInt KInt),
                     SField ''Bool'' [] True False TBool,
                     SField ''Skip'' ''-'' True False TString,
                     SField ''IP'' [] True False (TPtr ?ip)]"
  let ?flds = "[\<lparr>Name = ''AnInt'', EnvKeys = [''An'', ''Int''], Handle = [PField 0],
                 FType = TInt KInt, Options = noOptions\<lparr>DefaultVal := ''9''\<rparr>\<rparr>,
               \<lparr>Name = ''Bool'', EnvKeys = [''Bool''], Handle = [PField 1],
                 FType = TBool, Options = noOptions\<rparr>,
               \<lparr>Name = ''Name'', EnvKeys = [''IP'', ''Name''], Handle = [PField 3, PElem, PField 0],
                 FType = TString, Options = noOptions\<lparr>DefaultVal := ''localhost''\<rparr>\<rparr>]"
  have z: "zero ?t = VStruct [VInt 0, VBool False, VString [], VPtr None]" by simp
  have ex: "extractFields decimalLib [] (TPtr ?t) (VPtr (Some (zero ?t)))
              = (Inr ?flds, VPtr (Some (VStruct [VInt 0, VBool False, VString [],
                                                 VPtr (Some (VStruct [VString []]))])))"
    by (simp add: model_defs)
  have ne: "?flds \<noteq> []" by simp
  have nr: "\<forall>f\<in>set ?flds. \<not> Required (Options f)" by (simp add: noOptions_def)
  have env: "\<forall>f\<in>set ?flds.
      envValue decimalLib (newEnv decimalLib ''test'' (specifiedEnvNames ?flds)
         [(''HOME'', ''/root'')]) f = None"
    by (simp add: model_defs)
  have ok: "\<forall>f\<in>set ?flds. DefaultVal (Options f) \<noteq> [] \<longrightarrow>
               fst (processField decimalLib True (DefaultVal (Options f)) (FType f) (zero (FType f)))
                 = None"
    by (simp add: model_defs)
  have d: "defaultsOf decimalLib ?t
             = VStruct [VInt 9, VBool False, VString [], VPtr (Some (VStruct [VString ''localhost'']))]"
    by (simp add: defaultsOf.simps fieldDefault.simps model_defs)
  from Parse_defaults_only [OF ex ne nr env ok] show ?thesis
    by (simp only: z d)
qed

end
